theory Spec2Isabelle
  imports Complex_Main
begin

section \<open>Paths, file names and dates\<close>

text \<open>
  A \<^verbatim>\<open>pathlib.Path\<close> is its tuple of parts, so a path is the list of its components and two
  paths are equal when their parts are.  Strings are byte strings: the model covers ASCII file
  names (Python's \<^verbatim>\<open>\d\<close> would also accept non-ASCII decimal digits).
\<close>

type_synonym path = "string list"

datatype error = FileNotFoundError | PermissionError | ValueError | RemoteError

text \<open>\<^verbatim>\<open>Path.name\<close>: the final component, the empty string when there is none.\<close>

definition name :: "path \<Rightarrow> string" where
  "name p = (if p = [] then [] else last p)"

text \<open>\<^verbatim>\<open>str.rfind\<close> for a single character; \<open>None\<close> stands for Python's \<open>-1\<close>.\<close>

fun rfind :: "char \<Rightarrow> string \<Rightarrow> nat option" where
  "rfind c [] = None"
| "rfind c (x # xs) =
     (case rfind c xs of
        Some i \<Rightarrow> Some (Suc i)
      | None \<Rightarrow> if x = c then Some 0 else None)"

text \<open>
  \<^verbatim>\<open>Path.stem\<close> as pathlib computes it up to Python 3.13:
  \<^verbatim>\<open>i = name.rfind('.'); name[:i] if 0 < i < len(name) - 1 else name\<close>.
\<close>

definition stem :: "path \<Rightarrow> string" where
  "stem p =
     (let nm = name p in
      case rfind (CHR ''.'') nm of
        None \<Rightarrow> nm
      | Some i \<Rightarrow> if 0 < i \<and> i + 1 < length nm then take i nm else nm)"

text \<open>
  \<^verbatim>\<open>str.split(sep)\<close> for a one-character separator: every occurrence splits, empty fields are
  kept, and the result always has at least one field.
\<close>

fun split :: "char \<Rightarrow> string \<Rightarrow> string list" where
  "split c [] = [[]]"
| "split c (x # xs) =
     (if x = c then [] # split c xs
      else (case split c xs of
              field # fields \<Rightarrow> (x # field) # fields
            | [] \<Rightarrow> [[x]]))"

subsection \<open>Calendar dates\<close>

text \<open>
  The date part of a \<^verbatim>\<open>datetime\<close>.  The constructor of \<^verbatim>\<open>datetime.date\<close> raises
  \<^verbatim>\<open>ValueError\<close> unless \<open>1 \<le> year \<le> 9999\<close>, \<open>1 \<le> month \<le> 12\<close> and the day exists in that
  month.
\<close>

record date =
  year :: int
  month :: int
  day :: int

definition is_leap :: "int \<Rightarrow> bool" where
  "is_leap y = (y mod 4 = 0 \<and> (y mod 100 \<noteq> 0 \<or> y mod 400 = 0))"

definition days_in_month :: "int \<Rightarrow> int \<Rightarrow> int" where
  "days_in_month y m =
     (if m = 2 then (if is_leap y then 29 else 28)
      else if m = 4 \<or> m = 6 \<or> m = 9 \<or> m = 11 then 30 else 31)"

definition valid_date :: "int \<Rightarrow> int \<Rightarrow> int \<Rightarrow> bool" where
  "valid_date y m d =
     (1 \<le> y \<and> y \<le> 9999 \<and> 1 \<le> m \<and> m \<le> 12 \<and> 1 \<le> d \<and> d \<le> days_in_month y m)"

definition make_date :: "int \<Rightarrow> int \<Rightarrow> int \<Rightarrow> date option" where
  "make_date y m d =
     (if valid_date y m d then Some \<lparr>year = y, month = m, day = d\<rparr> else None)"

subsection \<open>Decimal digits\<close>

definition is_digit :: "char \<Rightarrow> bool" where
  "is_digit c = (c \<in> set ''0123456789'')"

definition digit_val :: "char \<Rightarrow> nat" where
  "digit_val c = of_char c - 48"

definition digit_char :: "nat \<Rightarrow> char" where
  "digit_char n = ''0123456789'' ! (n mod 10)"

text \<open>\<^verbatim>\<open>int(s)\<close> on a string of digits, most significant first.\<close>

definition int_of_digits :: "string \<Rightarrow> int" where
  "int_of_digits s = int (foldl (\<lambda>a c. 10 * a + digit_val c) 0 s)"

text \<open>Zero-padded decimal output, as \<^verbatim>\<open>%d\<close>, \<^verbatim>\<open>%m\<close> (two digits) and \<^verbatim>\<open>%Y\<close> (four) print it.\<close>

definition pad2 :: "int \<Rightarrow> string" where
  "pad2 n = [digit_char (nat n div 10), digit_char (nat n)]"

definition pad4 :: "int \<Rightarrow> string" where
  "pad4 n = [digit_char (nat n div 1000), digit_char (nat n div 100),
             digit_char (nat n div 10), digit_char (nat n)]"

subsection \<open>\<^verbatim>\<open>datetime.strptime(s, "%Y%m%d")\<close>\<close>

text \<open>
  \<^verbatim>\<open>strptime\<close> compiles the format into the regular expression
  \<^verbatim>\<open>(?P<Y>\d\d\d\d)(?P<m>1[0-2]|0[1-9]|[1-9])(?P<d>3[0-1]|[1-2]\d|0[1-9]|[1-9]| [1-9])\<close>
  and matches it at the start of the string with a backtracking matcher.  Each group below
  returns its possible matches in the order the matcher tries them: the text of the group and
  the rest of the input.
\<close>

definition nonzero_digit :: "char \<Rightarrow> bool" where
  "nonzero_digit c = (c \<in> set ''123456789'')"

fun match_Y :: "string \<Rightarrow> (string \<times> string) list" where
  "match_Y (a # b # c # d # r) =
     (if is_digit a \<and> is_digit b \<and> is_digit c \<and> is_digit d then [([a, b, c, d], r)] else [])"
| "match_Y _ = []"

fun two_chars :: "(char \<Rightarrow> bool) \<Rightarrow> (char \<Rightarrow> bool) \<Rightarrow> string \<Rightarrow> (string \<times> string) list" where
  "two_chars P Q (a # b # r) = (if P a \<and> Q b then [([a, b], r)] else [])"
| "two_chars P Q _ = []"

fun one_char :: "(char \<Rightarrow> bool) \<Rightarrow> string \<Rightarrow> (string \<times> string) list" where
  "one_char P (a # r) = (if P a then [([a], r)] else [])"
| "one_char P _ = []"

definition match_m :: "string \<Rightarrow> (string \<times> string) list" where
  "match_m s =
     two_chars (\<lambda>c. c = CHR ''1'') (\<lambda>c. c \<in> set ''012'') s
     @ two_chars (\<lambda>c. c = CHR ''0'') nonzero_digit s
     @ one_char nonzero_digit s"

definition match_d :: "string \<Rightarrow> (string \<times> string) list" where
  "match_d s =
     two_chars (\<lambda>c. c = CHR ''3'') (\<lambda>c. c \<in> set ''01'') s
     @ two_chars (\<lambda>c. c \<in> set ''12'') is_digit s
     @ two_chars (\<lambda>c. c = CHR ''0'') nonzero_digit s
     @ one_char nonzero_digit s
     @ two_chars (\<lambda>c. c = CHR '' '') nonzero_digit s"

text \<open>
  All matches of the whole expression, in the matcher's order; \<^verbatim>\<open>re.match\<close> returns the first.
\<close>

definition regex_matches :: "string \<Rightarrow> (string \<times> string \<times> string \<times> string) list" where
  "regex_matches s =
     concat (map (\<lambda>(y, r1).
       concat (map (\<lambda>(m, r2).
         map (\<lambda>(d, r3). (y, m, d, r3)) (match_d r2)) (match_m r1))) (match_Y s))"

text \<open>
  \<^verbatim>\<open>strptime\<close> raises \<^verbatim>\<open>ValueError\<close> (here \<open>None\<close>) when nothing matches, when the match leaves
  unconverted data, and when the fields are not a date.  \<^verbatim>\<open>int\<close> strips the blank that the
  last alternative of the day group admits.
\<close>

definition strptime :: "string \<Rightarrow> date option" where
  "strptime s =
     (case regex_matches s of
        [] \<Rightarrow> None
      | (y, m, d, rest) # _ \<Rightarrow>
          if rest \<noteq> [] then None
          else make_date (int_of_digits y) (int_of_digits m)
                 (int_of_digits (dropWhile (\<lambda>c. c = CHR '' '') d)))"

text \<open>
  \<^verbatim>\<open>dt.strftime("%d-%m-%Y")\<close>.  The year is printed with four digits, as the C runtime of
  Windows (the platform the program is written for) and CPython from 3.13 on print it.
\<close>

definition strftime :: "'a date_scheme \<Rightarrow> string" where
  "strftime dt = pad2 (day dt) @ ''-'' @ pad2 (month dt) @ ''-'' @ pad4 (year dt)"

subsection \<open>\<^verbatim>\<open>datetime.fromtimestamp\<close>\<close>

text \<open>
  \<^verbatim>\<open>datetime.fromtimestamp\<close> is a function of the standard library, not of the program: what
  it returns for a timestamp depends on the time zone of the machine, on the rounding of the
  float to the microsecond and on the range of dates the platform converts, and it raises
  outside that range.  The program only calls it, so it is a parameter of the model: a function
  from the timestamp (the value of the float \<^verbatim>\<open>st_mtime\<close>, a rational) to the date of the
  \<^verbatim>\<open>datetime\<close> it returns, or to the exception it raises.
\<close>

type_synonym localtime = "rat \<Rightarrow> error + date"

section \<open>The local file system\<close>

text \<open>
  Only regular files are modelled: the file system is the listing of its files in the order a
  directory walk enumerates them, each with the attributes the program reads.  No two entries
  of a real file system share a path; operations on a path act on every entry of it, so no
  theorem below depends on that.  \<open>st_mtime\<close> is the value of the float that \<^verbatim>\<open>stat\<close> returns, in
  seconds since the epoch with its fraction.  \<open>read_only\<close> marks a file
  whose removal or replacement the operating system refuses (\<^verbatim>\<open>PermissionError\<close>).
\<close>

record stat_result =
  st_size :: nat
  st_mtime :: rat
  read_only :: bool

type_synonym filesystem = "(path \<times> stat_result) list"

definition stat :: "filesystem \<Rightarrow> path \<Rightarrow> error + stat_result" where
  "stat fs p = (case map_of fs p of None \<Rightarrow> Inl FileNotFoundError | Some f \<Rightarrow> Inr f)"

definition exists :: "filesystem \<Rightarrow> path \<Rightarrow> bool" where
  "exists fs p = (map_of fs p \<noteq> None)"

definition unlink :: "filesystem \<Rightarrow> path \<Rightarrow> error + filesystem" where
  "unlink fs p =
     (case map_of fs p of
        None \<Rightarrow> Inl FileNotFoundError
      | Some f \<Rightarrow>
          if read_only f then Inl PermissionError
          else Inr (filter (\<lambda>(q, _). q \<noteq> p) fs))"

text \<open>\<^verbatim>\<open>[f for f in folder.rglob("*") if f.is_file()]\<close>: the files strictly below \<open>folder\<close>.\<close>

definition is_under :: "path \<Rightarrow> path \<Rightarrow> bool" where
  "is_under folder p = (length folder < length p \<and> take (length folder) p = folder)"

definition rglob_files :: "filesystem \<Rightarrow> path \<Rightarrow> path list" where
  "rglob_files fs folder = filter (is_under folder) (map fst fs)"

section \<open>Day-folder resolver\<close>

text \<open>
  \<^verbatim>\<open>get_day_folder_name_for_path\<close>: the second underscore-separated field of the stem is parsed
  as a date; when there is no second field or \<^verbatim>\<open>strptime\<close> raises \<^verbatim>\<open>ValueError\<close>, the
  modification time of the file is used, and \<^verbatim>\<open>path.stat()\<close> raises when the file is missing.
\<close>

definition mtime_day_folder_name :: "localtime \<Rightarrow> filesystem \<Rightarrow> path \<Rightarrow> error + string" where
  "mtime_day_folder_name fromtimestamp fs p =
     (case stat fs p of
        Inl e \<Rightarrow> Inl e
      | Inr f \<Rightarrow>
          (case fromtimestamp (st_mtime f) of
             Inl e \<Rightarrow> Inl e
           | Inr dt \<Rightarrow> Inr (strftime dt)))"

definition get_day_folder_name_for_path ::
    "localtime \<Rightarrow> filesystem \<Rightarrow> path \<Rightarrow> error + string" where
  "get_day_folder_name_for_path fromtimestamp fs p =
     (let parts = split (CHR ''_'') (stem p) in
      if length parts \<ge> 2 then
        (case strptime (parts ! 1) of
           Some dt \<Rightarrow> Inr (strftime dt)
         | None \<Rightarrow> mtime_day_folder_name fromtimestamp fs p)
      else mtime_day_folder_name fromtimestamp fs p)"

section \<open>Log and world\<close>

text \<open>
  The lines the program writes to its log, by kind, with the arguments of the format string
  (the folder sizes printed by the rotation messages are left out).
\<close>

datatype log_entry =
    StartingRotation
  | DeletingOldScreenshot path
  | ErrorDeletingFile path error
  | RotationComplete
  | ScreenshotSaved path
  | ErrorTakingScreenshot error
  | EnsuringFolderExists string
  | NoNodeIdReturned string
  | UsingFolder string string string
  | ErrorCreatingFolder string string error
  | NoLongerExistsLocally path
  | SkippingUpload path
  | Uploading path string string
  | UploadedDeletingLocal path
  | ErrorUploading path error

text \<open>
  Everything outside the process that the program reads and changes: the local file system, the
  state of the remote storage service (of an arbitrary type \<open>'r\<close>) and the log written so far.
\<close>

record 'r world =
  disk :: filesystem
  remote :: 'r
  logs :: "log_entry list"

definition logging :: "log_entry \<Rightarrow> 'r world \<Rightarrow> 'r world" where
  "logging e w = w\<lparr>logs := logs w @ [e]\<rparr>"

section \<open>Retention manager\<close>

text \<open>
  \<^verbatim>\<open>item.stat().st_size\<close> and \<^verbatim>\<open>f.stat().st_mtime\<close> on a path the walk has just listed; in a
  sequential run the listed file is there, so \<^verbatim>\<open>stat\<close> does not raise.
\<close>

definition size_of :: "filesystem \<Rightarrow> path \<Rightarrow> nat" where
  "size_of fs p = (case map_of fs p of Some f \<Rightarrow> st_size f | None \<Rightarrow> 0)"

definition mtime_of :: "filesystem \<Rightarrow> path \<Rightarrow> rat" where
  "mtime_of fs p = (case map_of fs p of Some f \<Rightarrow> st_mtime f | None \<Rightarrow> 0)"

definition get_folder_size_mb :: "filesystem \<Rightarrow> path \<Rightarrow> rat" where
  "get_folder_size_mb fs folder =
     of_nat (sum_list (map (size_of fs) (rglob_files fs folder))) / (1024 * 1024)"

text \<open>
  The \<^verbatim>\<open>for file_path in files\<close> loop of \<^verbatim>\<open>rotate_screenshots\<close>.  A failing \<^verbatim>\<open>unlink\<close> is
  caught and logged; the size is recomputed after every attempt.
\<close>

fun rotate_loop :: "path \<Rightarrow> rat \<Rightarrow> path set \<Rightarrow> path list \<Rightarrow> 'r world \<Rightarrow> 'r world" where
  "rotate_loop folder max_size_mb protected [] w = w"
| "rotate_loop folder max_size_mb protected (file_path # files) w =
     (if file_path \<in> protected then rotate_loop folder max_size_mb protected files w
      else
        let w1 = logging (DeletingOldScreenshot file_path) w;
            w2 = (case unlink (disk w1) file_path of
                    Inr fs' \<Rightarrow> w1\<lparr>disk := fs'\<rparr>
                  | Inl e \<Rightarrow> logging (ErrorDeletingFile file_path e) w1)
        in if get_folder_size_mb (disk w2) folder \<le> max_size_mb
           then logging RotationComplete w2
           else rotate_loop folder max_size_mb protected files w2)"

text \<open>
  \<^verbatim>\<open>rotate_screenshots(folder, max_size_mb, protected)\<close>.  \<^verbatim>\<open>list.sort\<close> is stable, as
  \<open>sort_key\<close> is.  The limit is a finite number (a \<^verbatim>\<open>float\<close> other than NaN and the
  infinities).
\<close>

definition rotate_screenshots ::
    "path \<Rightarrow> rat \<Rightarrow> path set option \<Rightarrow> 'r world \<Rightarrow> 'r world" where
  "rotate_screenshots folder max_size_mb protected w =
     (if max_size_mb \<le> 0 then w
      else if get_folder_size_mb (disk w) folder \<le> max_size_mb then w
      else
        let protected = (case protected of None \<Rightarrow> {} | Some s \<Rightarrow> s);
            w1 = logging StartingRotation w;
            files = sort_key (mtime_of (disk w1)) (rglob_files (disk w1) folder)
        in rotate_loop folder max_size_mb protected files w1)"

section \<open>Capture\<close>

text \<open>
  Writing a file: a new entry, or new contents for the entry of that path; replacing a
  read-only file is refused.
\<close>

definition write_file :: "filesystem \<Rightarrow> path \<Rightarrow> stat_result \<Rightarrow> error + filesystem" where
  "write_file fs p f =
     (case map_of fs p of
        None \<Rightarrow> Inr (fs @ [(p, f)])
      | Some old \<Rightarrow>
          if read_only old then Inl PermissionError
          else Inr (map (\<lambda>(q, g). if q = p then (q, f) else (q, g)) fs))"

text \<open>
  \<^verbatim>\<open>take_screenshot(output_path)\<close>.  The capture capability is outside the program: \<open>shot\<close> is
  what it delivers, the attributes of the image file it is about to write or the error it
  raises.  Every exception is caught and logged.
\<close>

definition take_screenshot :: "path \<Rightarrow> error + stat_result \<Rightarrow> 'r world \<Rightarrow> 'r world" where
  "take_screenshot output_path shot w =
     (case shot of
        Inl e \<Rightarrow> logging (ErrorTakingScreenshot e) w
      | Inr f \<Rightarrow>
          (case write_file (disk w) output_path f of
             Inl e \<Rightarrow> logging (ErrorTakingScreenshot e) w
           | Inr fs' \<Rightarrow> logging (ScreenshotSaved output_path) (w\<lparr>disk := fs'\<rparr>)))"

section \<open>Remote folder cache\<close>

text \<open>
  The remote client (\<^verbatim>\<open>mega.Mega\<close> after login) is an external collaborator: any behaviour
  of its two calls is admitted.  Each call reads and changes the state of the service and
  either raises or returns; \<^verbatim>\<open>create_folder\<close> returns a dictionary from folder names to node
  ids.
\<close>

record 'r mega =
  create_folder :: "string \<Rightarrow> 'r \<Rightarrow> (error + (string \<rightharpoonup> string)) \<times> 'r"
  upload :: "path \<Rightarrow> string \<Rightarrow> 'r \<Rightarrow> (error + unit) \<times> 'r"

type_synonym cache = "string \<rightharpoonup> string"

text \<open>
  \<^verbatim>\<open>ensure_mega_day_folder(mega_client, username, day_folder_name, cache)\<close>: the node id or
  \<open>None\<close>, with the cache as the call leaves it.  An empty node id is falsy, as a missing one.
\<close>

definition ensure_mega_day_folder ::
    "'r mega \<Rightarrow> string \<Rightarrow> string \<Rightarrow> cache \<Rightarrow> 'r world \<Rightarrow> string option \<times> cache \<times> 'r world" where
  "ensure_mega_day_folder mega_client username day_folder_name cache w =
     (case cache day_folder_name of
        Some node_id \<Rightarrow> (Some node_id, cache, w)
      | None \<Rightarrow>
          let remote_path = username @ ''/'' @ day_folder_name;
              w1 = logging (EnsuringFolderExists remote_path) w;
              (result, r') = create_folder mega_client remote_path (remote w1);
              w2 = w1\<lparr>remote := r'\<rparr>
          in case result of
               Inl e \<Rightarrow> (None, cache, logging (ErrorCreatingFolder username day_folder_name e) w2)
             | Inr d \<Rightarrow>
                 (case d day_folder_name of
                    None \<Rightarrow> (None, cache, logging (NoNodeIdReturned remote_path) w2)
                  | Some node_id \<Rightarrow>
                      if node_id = [] then (None, cache, logging (NoNodeIdReturned remote_path) w2)
                      else (Some node_id, cache(day_folder_name \<mapsto> node_id),
                            logging (UsingFolder username day_folder_name node_id) w2)))"

section \<open>Upload batcher\<close>

text \<open>
  The body of the loop of \<^verbatim>\<open>upload_batch_to_mega\<close> for one path: the list of uploaded paths,
  the cache and the world before and after.  Every exception raised in the body is caught and
  logged, and the loop goes on to the next path.
\<close>

definition upload_one ::
    "localtime \<Rightarrow> 'r mega \<Rightarrow> string \<Rightarrow> path
      \<Rightarrow> path list \<times> cache \<times> 'r world \<Rightarrow> path list \<times> cache \<times> 'r world" where
  "upload_one fromtimestamp mega_client mega_username p st =
     (case st of (successfully_uploaded, mega_day_cache, w) \<Rightarrow>
        if \<not> exists (disk w) p
        then (successfully_uploaded @ [p], mega_day_cache, logging (NoLongerExistsLocally p) w)
        else
          (case get_day_folder_name_for_path fromtimestamp (disk w) p of
             Inl e \<Rightarrow> (successfully_uploaded, mega_day_cache, logging (ErrorUploading p e) w)
           | Inr day_folder_name \<Rightarrow>
               (case ensure_mega_day_folder mega_client mega_username day_folder_name
                       mega_day_cache w of
                  (day_node_id, cache1, w1) \<Rightarrow>
                    (case day_node_id of
                       None \<Rightarrow> (successfully_uploaded, cache1, logging (SkippingUpload p) w1)
                     | Some h \<Rightarrow>
                         if h = [] then (successfully_uploaded, cache1, logging (SkippingUpload p) w1)
                         else
                           let w2 = logging (Uploading p mega_username day_folder_name) w1
                           in (case upload mega_client p h (remote w2) of
                                 (Inl e, r') \<Rightarrow>
                                   (successfully_uploaded, cache1,
                                    logging (ErrorUploading p e) (w2\<lparr>remote := r'\<rparr>))
                               | (Inr _, r') \<Rightarrow>
                                   let w3 = logging (UploadedDeletingLocal p) (w2\<lparr>remote := r'\<rparr>)
                                   in (case unlink (disk w3) p of
                                         Inl e \<Rightarrow>
                                           (successfully_uploaded, cache1,
                                            logging (ErrorUploading p e) w3)
                                       | Inr fs' \<Rightarrow>
                                           (successfully_uploaded @ [p], cache1,
                                            w3\<lparr>disk := fs'\<rparr>)))))))"

fun upload_loop ::
    "localtime \<Rightarrow> 'r mega \<Rightarrow> string \<Rightarrow> path list
      \<Rightarrow> path list \<times> cache \<times> 'r world \<Rightarrow> path list \<times> cache \<times> 'r world" where
  "upload_loop fromtimestamp mega_client mega_username [] st = st"
| "upload_loop fromtimestamp mega_client mega_username (p # pending_paths) st =
     upload_loop fromtimestamp mega_client mega_username pending_paths
       (upload_one fromtimestamp mega_client mega_username p st)"

text \<open>
  \<^verbatim>\<open>upload_batch_to_mega(mega_client, mega_username, mega_day_cache, pending_paths)\<close>: the
  returned list, with the cache (mutated in place by the source) and the world after the call.
\<close>

definition upload_batch_to_mega ::
    "localtime \<Rightarrow> 'r mega option \<Rightarrow> string \<Rightarrow> cache \<Rightarrow> path list \<Rightarrow> 'r world
      \<Rightarrow> path list \<times> cache \<times> 'r world" where
  "upload_batch_to_mega fromtimestamp mega_client mega_username mega_day_cache pending_paths w =
     (case mega_client of
        None \<Rightarrow> ([], mega_day_cache, w)
      | Some c \<Rightarrow>
          if pending_paths = [] then ([], mega_day_cache, w)
          else upload_loop fromtimestamp c mega_username pending_paths ([], mega_day_cache, w))"

section \<open>Orchestrator\<close>

record config =
  interval_seconds :: int
  screenshot_folder :: path
  enable_mega :: bool
  upload_batch_size :: int
  max_folder_size_mb :: rat

record datetime = date +
  hour :: int
  minute :: int
  second :: int

text \<open>
  What one iteration of the loop takes from outside: the clock, the outcome of the capture, and
  what \<^verbatim>\<open>init_mega_client(config)\<close> returns if it is called (a client, or \<open>None\<close> when the
  credentials are missing or the login raises).
\<close>

record 'r tick =
  now :: datetime
  shot :: "error + stat_result"
  login :: "'r mega option"

text \<open>The variables of \<^verbatim>\<open>main\<close> that the loop changes, and the world.\<close>

record 'r state =
  pending_screenshots :: "path list"
  mega_client :: "'r mega option"
  mega_day_cache :: cache
  world :: "'r world"

text \<open>\<^verbatim>\<open>now.strftime("%Y%m%d_%H%M%S")\<close>.\<close>

definition timestamp :: "datetime \<Rightarrow> string" where
  "timestamp t =
     pad4 (year t) @ pad2 (month t) @ pad2 (day t) @ ''_''
     @ pad2 (hour t) @ pad2 (minute t) @ pad2 (second t)"

definition screenshot_path :: "config \<Rightarrow> datetime \<Rightarrow> path" where
  "screenshot_path cfg t =
     screenshot_folder cfg @ [strftime t, ''screenshot_'' @ timestamp t @ ''.png'']"

text \<open>
  Lines 390 to 403 of \<^verbatim>\<open>main\<close>: the upload trigger at the end of an iteration.
\<close>

definition upload_trigger ::
    "localtime \<Rightarrow> config \<Rightarrow> string \<Rightarrow> 'r mega option \<Rightarrow> 'r state \<Rightarrow> 'r state" where
  "upload_trigger fromtimestamp cfg username login_result st =
     (if enable_mega cfg \<and> int (length (pending_screenshots st)) \<ge> upload_batch_size cfg then
        (case (case mega_client st of None \<Rightarrow> login_result | Some c \<Rightarrow> Some c) of
           None \<Rightarrow> st\<lparr>mega_client := None\<rparr>
         | Some c \<Rightarrow>
             (case upload_batch_to_mega fromtimestamp (Some c) username (mega_day_cache st)
                     (pending_screenshots st) (world st) of
                (uploaded, cache', w') \<Rightarrow>
                  st\<lparr>pending_screenshots :=
                        filter (\<lambda>p. p \<notin> set uploaded) (pending_screenshots st),
                     mega_client := Some c,
                     mega_day_cache := cache',
                     world := w'\<rparr>))
      else st)"

text \<open>
  One iteration of the \<^verbatim>\<open>while True\<close> loop of \<^verbatim>\<open>main\<close>, up to the sleep: capture, append to
  the pending list, rotate with the pending paths protected, upload trigger.  Directories are
  not modelled, so \<^verbatim>\<open>ensure_folder\<close> has no effect here.
\<close>

definition capture_and_rotate :: "config \<Rightarrow> 'r tick \<Rightarrow> 'r state \<Rightarrow> 'r state" where
  "capture_and_rotate cfg inp st =
     (let p = screenshot_path cfg (now inp);
          w1 = take_screenshot p (shot inp) (world st);
          pending1 = pending_screenshots st @ [p];
          w2 = rotate_screenshots (screenshot_folder cfg) (max_folder_size_mb cfg)
                 (Some (set pending1)) w1
      in st\<lparr>pending_screenshots := pending1, world := w2\<rparr>)"

definition loop_iteration ::
    "localtime \<Rightarrow> config \<Rightarrow> string \<Rightarrow> 'r tick \<Rightarrow> 'r state \<Rightarrow> 'r state" where
  "loop_iteration fromtimestamp cfg username inp st =
     upload_trigger fromtimestamp cfg username (login inp) (capture_and_rotate cfg inp st)"

text \<open>
  The handler of \<^verbatim>\<open>KeyboardInterrupt\<close>: one last pass over whatever is pending, whatever the
  batch size, when uploads are enabled and a client exists.
\<close>

definition final_upload :: "localtime \<Rightarrow> config \<Rightarrow> string \<Rightarrow> 'r state \<Rightarrow> 'r state" where
  "final_upload fromtimestamp cfg username st =
     (if enable_mega cfg \<and> mega_client st \<noteq> None \<and> pending_screenshots st \<noteq> [] then
        (case upload_batch_to_mega fromtimestamp (mega_client st) username (mega_day_cache st)
                (pending_screenshots st) (world st) of
           (uploaded, cache', w') \<Rightarrow>
             st\<lparr>pending_screenshots :=
                   filter (\<lambda>p. p \<notin> set uploaded) (pending_screenshots st),
                mega_day_cache := cache',
                world := w'\<rparr>)
      else st)"

section \<open>Observations used in the statements\<close>

text \<open>The log lines a call has added, and the paths whose deletion a rotation announced.\<close>

definition new_logs :: "'r world \<Rightarrow> 'r world \<Rightarrow> log_entry list" where
  "new_logs w w' = drop (length (logs w)) (logs w')"

definition deletion_attempts :: "log_entry list \<Rightarrow> path list" where
  "deletion_attempts l =
     concat (map (\<lambda>e. case e of DeletingOldScreenshot p \<Rightarrow> [p] | _ \<Rightarrow> []) l)"

text \<open>
  \<^verbatim>\<open>unlink\<close> inside \<^verbatim>\<open>try\<close>/\<^verbatim>\<open>except\<close>: the file system after the attempt, whether or not it
  raised.
\<close>

definition try_unlink :: "filesystem \<Rightarrow> path \<Rightarrow> filesystem" where
  "try_unlink fs p = (case unlink fs p of Inr fs' \<Rightarrow> fs' | Inl e \<Rightarrow> fs)"

definition is_read_only :: "filesystem \<Rightarrow> path \<Rightarrow> bool" where
  "is_read_only fs p = (case map_of fs p of Some f \<Rightarrow> read_only f | None \<Rightarrow> False)"

text \<open>The protect-set a call of \<^verbatim>\<open>rotate_screenshots\<close> works with (\<^verbatim>\<open>None\<close> is the empty set).\<close>

definition protected_paths :: "path set option \<Rightarrow> path set" where
  "protected_paths protected = (case protected of None \<Rightarrow> {} | Some s \<Rightarrow> s)"

text \<open>
  A run of calls of \<^verbatim>\<open>ensure_mega_day_folder\<close> for a sequence of day keys, with the cache and
  the world passed from each call to the next, as the calls of one process run are.
\<close>

fun ensure_all ::
    "'r mega \<Rightarrow> string \<Rightarrow> string list \<Rightarrow> cache \<times> 'r world \<Rightarrow> cache \<times> 'r world" where
  "ensure_all c username [] st = st"
| "ensure_all c username (day_folder_name # days) st =
     (case st of (cache, w) \<Rightarrow>
        (case ensure_mega_day_folder c username day_folder_name cache w of
           (node_id, cache', w') \<Rightarrow> ensure_all c username days (cache', w')))"

text \<open>
  Create-folder calls in a log, for one day key.  \<^verbatim>\<open>ensure_mega_day_folder\<close> logs
  ``Ensuring MEGA folder exists'' right before each call of \<^verbatim>\<open>create_folder\<close>, and after it
  either ``Using MEGA folder'' (a node id came back) or an error line.
\<close>

definition create_folder_calls :: "string \<Rightarrow> string \<Rightarrow> log_entry list \<Rightarrow> nat" where
  "create_folder_calls username day_folder_name l =
     length (filter (\<lambda>e. e = EnsuringFolderExists (username @ ''/'' @ day_folder_name)) l)"

definition create_folder_successes :: "string \<Rightarrow> string \<Rightarrow> log_entry list \<Rightarrow> nat" where
  "create_folder_successes username day_folder_name l =
     length (filter (\<lambda>e. case e of UsingFolder u d _ \<Rightarrow> u = username \<and> d = day_folder_name
                             | _ \<Rightarrow> False) l)"

definition create_folder_failures :: "string \<Rightarrow> string \<Rightarrow> log_entry list \<Rightarrow> nat" where
  "create_folder_failures username day_folder_name l =
     length (filter (\<lambda>e. case e of
                            NoNodeIdReturned path \<Rightarrow> path = username @ ''/'' @ day_folder_name
                          | ErrorCreatingFolder u d _ \<Rightarrow> u = username \<and> d = day_folder_name
                          | _ \<Rightarrow> False) l)"

text \<open>
  What a log says about the upload of a path: an upload was started (``Uploading''), the remote
  client returned from it without raising (``Uploaded, deleting local copy''), and the batcher
  logged how it settled the path.
\<close>

definition upload_attempted :: "path \<Rightarrow> log_entry list \<Rightarrow> bool" where
  "upload_attempted p l = list_ex (\<lambda>e. case e of Uploading q _ _ \<Rightarrow> q = p | _ \<Rightarrow> False) l"

definition upload_confirmed :: "path \<Rightarrow> log_entry list \<Rightarrow> bool" where
  "upload_confirmed p l = (UploadedDeletingLocal p \<in> set l)"

definition outcome_logged :: "path \<Rightarrow> log_entry list \<Rightarrow> bool" where
  "outcome_logged p l =
     list_ex (\<lambda>e. case e of
                    NoLongerExistsLocally q \<Rightarrow> q = p
                  | SkippingUpload q \<Rightarrow> q = p
                  | ErrorUploading q _ \<Rightarrow> q = p
                  | UploadedDeletingLocal q \<Rightarrow> q = p
                  | _ \<Rightarrow> False) l"

text \<open>
  The remote side of the loop body of the batcher for a path \<open>p\<close>, run from a state of the
  loop: the file is there, its day key resolves, \<^verbatim>\<open>ensure_mega_day_folder\<close> gives a node id, and
  the call \<^verbatim>\<open>mega_client.upload(str(path), day_node_id)\<close>, made in the remote state reached
  then, returns without raising.
\<close>

definition upload_returns ::
    "localtime \<Rightarrow> 'r mega \<Rightarrow> string \<Rightarrow> path \<Rightarrow> path list \<times> cache \<times> 'r world \<Rightarrow> bool" where
  "upload_returns fromtimestamp c username p st =
     (case st of (uploaded, cache, w) \<Rightarrow>
        exists (disk w) p \<and>
        (case get_day_folder_name_for_path fromtimestamp (disk w) p of
           Inl e \<Rightarrow> False
         | Inr day_folder_name \<Rightarrow>
             (case ensure_mega_day_folder c username day_folder_name cache w of
                (day_node_id, cache1, w1) \<Rightarrow>
                  (case day_node_id of
                     None \<Rightarrow> False
                   | Some h \<Rightarrow>
                       h \<noteq> [] \<and> (case fst (upload c p h (remote w1)) of
                                    Inl e \<Rightarrow> False
                                  | Inr x \<Rightarrow> True)))))"

text \<open>
  The state of the loop of \<^verbatim>\<open>upload_batch_to_mega\<close> when it reaches position \<open>i\<close> of the list:
  the paths before that position have been processed.
\<close>

definition loop_state ::
    "localtime \<Rightarrow> 'r mega \<Rightarrow> string \<Rightarrow> cache \<Rightarrow> path list \<Rightarrow> 'r world \<Rightarrow> nat
      \<Rightarrow> path list \<times> cache \<times> 'r world" where
  "loop_state fromtimestamp c username cache pending w i =
     upload_loop fromtimestamp c username (take i pending) ([], cache, w)"

text \<open>
  The upload of \<open>p\<close> succeeds in a batch: at some position of the list \<open>p\<close> is the path
  processed, and in the state in which the loop reaches that position its upload returns.
\<close>

definition upload_succeeded ::
    "localtime \<Rightarrow> 'r mega \<Rightarrow> string \<Rightarrow> cache \<Rightarrow> path list \<Rightarrow> 'r world \<Rightarrow> path \<Rightarrow> bool" where
  "upload_succeeded fromtimestamp c username cache pending w p =
     list_ex (\<lambda>i. pending ! i = p
                \<and> upload_returns fromtimestamp c username p
                    (loop_state fromtimestamp c username cache pending w i))
       [0..<length pending]"

section \<open>Concrete scenarios\<close>

text \<open>
  Two platforms.  On the first \<^verbatim>\<open>datetime.fromtimestamp\<close> raises for every timestamp: the
  scenarios whose keys come from the file names run on it.  The second places the timestamp
  1709640000 (noon UTC of 2024-03-05) on 2024-03-05.
\<close>

definition raising_fromtimestamp :: localtime where
  "raising_fromtimestamp t = Inl ValueError"

definition example_fromtimestamp :: localtime where
  "example_fromtimestamp t =
     (if t = 1709640000 then Inr \<lparr>year = 2024, month = 3, day = 5\<rparr> else Inl ValueError)"

text \<open>
  A folder of three files of 1 MB each: \<open>a\<close> is the oldest, \<open>b\<close> is read-only, \<open>c\<close> is the
  newest.  The walk lists them newest first.
\<close>

definition three_files :: "unit world" where
  "three_files =
     \<lparr>disk = [([''shots'', ''c.png''], \<lparr>st_size = 1048576, st_mtime = 3, read_only = False\<rparr>),
              ([''shots'', ''b.png''], \<lparr>st_size = 1048576, st_mtime = 2, read_only = True\<rparr>),
              ([''shots'', ''a.png''], \<lparr>st_size = 1048576, st_mtime = 1, read_only = False\<rparr>)],
      remote = (), logs = []\<rparr>"

text \<open>A folder with a single read-only file of 2 MB.\<close>

definition one_locked_file :: "unit world" where
  "one_locked_file =
     \<lparr>disk = [([''shots'', ''a.png''], \<lparr>st_size = 2097152, st_mtime = 1, read_only = True\<rparr>)],
      remote = (), logs = []\<rparr>"

text \<open>
  A remote service that answers every \<^verbatim>\<open>create_folder\<close> with an empty dictionary; its state
  counts the calls.
\<close>

definition no_handle_client :: "nat mega" where
  "no_handle_client =
     \<lparr>create_folder = (\<lambda>path n. (Inr Map.empty, Suc n)),
      upload = (\<lambda>p h n. (Inr (), n))\<rparr>"

text \<open>
  A remote service that creates every folder and accepts every upload; the node id of a folder
  is its name with \<^verbatim>\<open>#\<close> in front, and the state lists the uploaded paths.
\<close>

definition obliging_client :: "path list mega" where
  "obliging_client =
     \<lparr>create_folder = (\<lambda>path r. (Inr [last (split (CHR ''/'') path) \<mapsto> ''#'' @ path], r)),
      upload = (\<lambda>p h r. (Inr (), r @ [p]))\<rparr>"

text \<open>
  A remote service with a transient fault: its first \<^verbatim>\<open>create_folder\<close> answers with an empty
  dictionary, the later ones with the node id of the folder of 21-11-2025; it accepts every
  upload.  Its state counts the \<^verbatim>\<open>create_folder\<close> calls.
\<close>

definition moody_client :: "nat mega" where
  "moody_client =
     \<lparr>create_folder = (\<lambda>path n.
        (if n = 0 then Inr Map.empty else Inr [''21-11-2025'' \<mapsto> ''#21''], Suc n)),
      upload = (\<lambda>p h n. (Inr (), n))\<rparr>"

text \<open>
  A batch of five screenshots.  The second is no longer on disk.  The remote service creates
  the folder of 21-11-2025 only, and refuses the upload of the fourth screenshot; its state
  lists the uploaded paths.
\<close>

definition shot1 :: path where
  "shot1 = [''shots'', ''21-11-2025'', ''screenshot_20251121_220005.png'']"

definition shot2 :: path where
  "shot2 = [''shots'', ''21-11-2025'', ''screenshot_20251121_220015.png'']"

definition shot3 :: path where
  "shot3 = [''shots'', ''22-11-2025'', ''screenshot_20251122_000005.png'']"

definition shot4 :: path where
  "shot4 = [''shots'', ''21-11-2025'', ''screenshot_20251121_220025.png'']"

definition shot5 :: path where
  "shot5 = [''shots'', ''21-11-2025'', ''screenshot_20251121_220035.png'']"

definition picky_client :: "path list mega" where
  "picky_client =
     \<lparr>create_folder = (\<lambda>path r.
        (if path = ''user/21-11-2025'' then Inr [''21-11-2025'' \<mapsto> ''#21''] else Inr Map.empty, r)),
      upload = (\<lambda>p h r. if p = shot4 then (Inl RemoteError, r) else (Inr (), r @ [p]))\<rparr>"

definition png :: stat_result where
  "png = \<lparr>st_size = 1048576, st_mtime = 1763762405, read_only = False\<rparr>"

definition four_on_disk :: "path list world" where
  "four_on_disk =
     \<lparr>disk = [(shot1, png), (shot3, png), (shot4, png), (shot5, png)], remote = [], logs = []\<rparr>"

text \<open>The orchestrator with these five screenshots pending and a batch size of five.\<close>

definition batch_of_five :: config where
  "batch_of_five =
     \<lparr>interval_seconds = 10, screenshot_folder = [''shots''], enable_mega = True,
      upload_batch_size = 5, max_folder_size_mb = 500\<rparr>"

definition five_pending :: "path list state" where
  "five_pending =
     \<lparr>pending_screenshots = [shot1, shot2, shot3, shot4, shot5],
      mega_client = Some picky_client, mega_day_cache = Map.empty, world = four_on_disk\<rparr>"

text \<open>
  Two screenshots of 21-11-2025 pending and on disk, with the remote service that fails once;
  and the same path pending twice (two captures within one second write the same file).
\<close>

definition moody_pending :: "nat state" where
  "moody_pending =
     \<lparr>pending_screenshots = [shot1, shot5],
      mega_client = Some moody_client, mega_day_cache = Map.empty,
      world = \<lparr>disk = [(shot1, png), (shot5, png)], remote = 0, logs = []\<rparr>\<rparr>"

definition twice_pending :: "nat state" where
  "twice_pending =
     \<lparr>pending_screenshots = [shot1, shot1],
      mega_client = Some moody_client, mega_day_cache = Map.empty,
      world = \<lparr>disk = [(shot1, png)], remote = 0, logs = []\<rparr>\<rparr>"

text \<open>
  Ten screenshots taken one second apart on 21-11-2025, all on disk and pending, a batch size
  of ten, and the remote service that accepts everything.
\<close>

definition ten_shots :: "path list" where
  "ten_shots =
     map (\<lambda>s. [''shots'', ''21-11-2025'', ''screenshot_20251121_2200'' @ pad2 s @ ''.png''])
       [10, 11, 12, 13, 14, 15, 16, 17, 18, 19]"

definition batch_of_ten :: config where
  "batch_of_ten =
     \<lparr>interval_seconds = 1, screenshot_folder = [''shots''], enable_mega = True,
      upload_batch_size = 10, max_folder_size_mb = 500\<rparr>"

definition ten_pending :: "path list state" where
  "ten_pending =
     \<lparr>pending_screenshots = ten_shots,
      mega_client = Some obliging_client, mega_day_cache = Map.empty,
      world = \<lparr>disk = map (\<lambda>p. (p, png)) ten_shots, remote = [], logs = []\<rparr>\<rparr>"

text \<open>
  One loop iteration: a screenshot of the previous day and the first screenshot are on disk,
  the first is pending; the clock shows 21-11-2025 22:00:15, so the capture writes the second
  screenshot.  The limit is 2 MB and the batch size is two.
\<close>

definition old_shot :: path where
  "old_shot = [''shots'', ''20-11-2025'', ''screenshot_20251120_100000.png'']"

definition small_limit :: config where
  "small_limit =
     \<lparr>interval_seconds = 10, screenshot_folder = [''shots''], enable_mega = True,
      upload_batch_size = 2, max_folder_size_mb = 2\<rparr>"

definition one_pending :: "path list state" where
  "one_pending =
     \<lparr>pending_screenshots = [shot1],
      mega_client = Some picky_client, mega_day_cache = Map.empty,
      world = \<lparr>disk = [(old_shot, \<lparr>st_size = 1048576, st_mtime = 1763632800, read_only = False\<rparr>),
                      (shot1, png)],
               remote = [], logs = []\<rparr>\<rparr>"

definition second_tick :: "path list tick" where
  "second_tick =
     \<lparr>now = \<lparr>year = 2025, month = 11, day = 21, hour = 22, minute = 0, second = 15\<rparr>,
      shot = Inr png, login = None\<rparr>"

section \<open>Lemmas on file names and dates\<close>

lemma split_nonempty: "split c s \<noteq> []"
  by (induction s) (auto split: list.splits)

lemma split_no_sep: "c \<notin> set s \<Longrightarrow> split c s = [s]"
  by (induction s) (auto split: list.splits)

lemma split_append_sep: "c \<notin> set a \<Longrightarrow> split c (a @ c # b) = a # split c b"
  by (induction a) (auto split: list.splits)

lemma digit_char_all:
  "\<forall>n\<in>set [0, 1, 2, 3, 4, 5, 6, 7, 8, 9].
      is_digit (digit_char n) \<and> digit_val (digit_char n) = n
      \<and> digit_char n \<noteq> CHR ''_'' \<and> digit_char n \<noteq> CHR '' ''"
  by (simp add: is_digit_def digit_val_def digit_char_def)

lemma digit_char_props:
  assumes "n < 10"
  shows "is_digit (digit_char n)" and "digit_val (digit_char n) = n"
    and "digit_char n \<noteq> CHR ''_''" and "digit_char n \<noteq> CHR '' ''"
proof -
  have "n \<in> set [0, 1, 2, 3, 4, 5, 6, 7, 8, 9]"
    using assms by simp arith
  with digit_char_all
  show "is_digit (digit_char n)" and "digit_val (digit_char n) = n"
    and "digit_char n \<noteq> CHR ''_''" and "digit_char n \<noteq> CHR '' ''"
    by blast+
qed

lemma digit_char_mod: "digit_char n = digit_char (n mod 10)"
  by (simp add: digit_char_def)

lemma is_digit_digit_char [simp]: "is_digit (digit_char n)"
  using digit_char_props(1) [of "n mod 10"] digit_char_mod [of n] by simp

lemma digit_val_digit_char [simp]: "digit_val (digit_char n) = n mod 10"
  using digit_char_props(2) [of "n mod 10"] digit_char_mod [of n] by simp

lemma digit_char_not_underscore [simp]: "digit_char n \<noteq> CHR ''_''"
  using digit_char_props(3) [of "n mod 10"] digit_char_mod [of n] by simp

lemma digit_char_not_blank [simp]: "digit_char n \<noteq> CHR '' ''"
  using digit_char_props(4) [of "n mod 10"] digit_char_mod [of n] by simp

lemma decimal4:
  fixes n :: nat
  assumes "n < 10000"
  shows "10 * (10 * (10 * (n div 1000 mod 10) + n div 100 mod 10) + n div 10 mod 10) + n mod 10 = n"
proof -
  define a where "a = n div 10"
  define b where "b = a div 10"
  define c where "c = b div 10"
  have b: "n div 100 = b" unfolding b_def a_def by (simp add: div_mult2_eq)
  have c: "n div 1000 = c" unfolding c_def b_def a_def by (simp add: div_mult2_eq)
  have "c < 10" using assms unfolding c [symmetric] by simp
  then have cm: "c mod 10 = c" by simp
  have 1: "10 * c + b mod 10 = b" unfolding c_def by simp
  have 2: "10 * b + a mod 10 = a" unfolding b_def by simp
  have 3: "10 * a + n mod 10 = n" unfolding a_def by simp
  show ?thesis
    unfolding b c cm a_def [symmetric] 1 2 3 ..
qed

lemma decimal2:
  fixes n :: nat
  assumes "n < 100"
  shows "10 * (n div 10 mod 10) + n mod 10 = n"
proof -
  have "n div 10 < 10" using assms by simp
  then have "n div 10 mod 10 = n div 10" by simp
  then show ?thesis by simp
qed

lemma int_of_digits_pad4:
  assumes "0 \<le> y" and "y \<le> 9999"
  shows "int_of_digits (pad4 y) = y"
proof -
  have "nat y < 10000" using assms by simp
  from decimal4 [OF this]
  have "foldl (\<lambda>a c. 10 * a + digit_val c) 0 (pad4 y) = nat y"
    by (simp add: pad4_def)
  then show ?thesis
    using assms by (simp add: int_of_digits_def)
qed

lemma int_of_digits_pad2:
  assumes "0 \<le> n" and "n \<le> 99"
  shows "int_of_digits (pad2 n) = n"
proof -
  have "nat n < 100" using assms by simp
  from decimal2 [OF this]
  have "foldl (\<lambda>a c. 10 * a + digit_val c) 0 (pad2 n) = nat n"
    by (simp add: pad2_def)
  then show ?thesis
    using assms by (simp add: int_of_digits_def)
qed

lemma underscore_notin_pad [simp]:
  "CHR ''_'' \<notin> set (pad2 n)" "CHR ''_'' \<notin> set (pad4 n)"
  by (simp_all add: pad2_def pad4_def eq_commute [of "CHR ''_''"])

lemma match_Y_pad4: "match_Y (pad4 y @ r) = [(pad4 y, r)]"
  by (simp add: pad4_def)

lemma match_m_all:
  "\<forall>m\<in>set (1 # [2..12]). \<exists>xs. match_m (pad2 m @ r) = (pad2 m, r) # xs"
  by (simp del: set_upto add: match_m_def pad2_def digit_char_def nonzero_digit_def)

lemma match_m_pad2:
  assumes "1 \<le> m" and "m \<le> 12"
  shows "\<exists>xs. match_m (pad2 m @ r) = (pad2 m, r) # xs"
proof -
  have "m \<in> set (1 # [2..12])" using assms by (simp del: upto_rec_numeral) arith
  with match_m_all show ?thesis by blast
qed

lemma match_d_all:
  "\<forall>d\<in>set (1 # [2..31]). \<exists>xs. match_d (pad2 d @ r) = (pad2 d, r) # xs"
  by (simp del: set_upto
        add: match_d_def pad2_def digit_char_def nonzero_digit_def is_digit_def)

lemma match_d_pad2:
  assumes "1 \<le> d" and "d \<le> 31"
  shows "\<exists>xs. match_d (pad2 d @ r) = (pad2 d, r) # xs"
proof -
  have "d \<in> set (1 # [2..31])" using assms by (simp del: upto_rec_numeral) arith
  with match_d_all show ?thesis by blast
qed

lemma days_in_month_le: "days_in_month y m \<le> 31"
  by (simp add: days_in_month_def)

lemma strptime_pad:
  assumes "valid_date y m d"
  shows "strptime (pad4 y @ pad2 m @ pad2 d) = Some \<lparr>year = y, month = m, day = d\<rparr>"
proof -
  from assms have y: "0 \<le> y" "y \<le> 9999" and m: "1 \<le> m" "m \<le> 12" and d1: "1 \<le> d"
    and d2: "d \<le> days_in_month y m"
    by (simp_all add: valid_date_def)
  from d2 days_in_month_le [of y m] have d31: "d \<le> 31" by linarith
  obtain xs where xs: "match_m (pad2 m @ pad2 d) = (pad2 m, pad2 d) # xs"
    using match_m_pad2 [OF m] by blast
  obtain ys where ys: "match_d (pad2 d) = (pad2 d, []) # ys"
    using match_d_pad2 [OF d1 d31, of "[]"] by auto
  have "\<exists>zs. regex_matches (pad4 y @ pad2 m @ pad2 d) = (pad4 y, pad2 m, pad2 d, []) # zs"
    by (simp add: regex_matches_def match_Y_pad4 xs ys)
  then obtain zs where zs: "regex_matches (pad4 y @ pad2 m @ pad2 d) = (pad4 y, pad2 m, pad2 d, []) # zs"
    by blast
  have drop: "dropWhile (\<lambda>c. c = CHR '' '') (pad2 d) = pad2 d"
    by (simp add: pad2_def)
  have "int_of_digits (pad2 m) = m" "int_of_digits (pad2 d) = d"
    using m d1 d31 by (simp_all add: int_of_digits_pad2)
  then show ?thesis
    using assms y by (simp add: strptime_def zs drop int_of_digits_pad4 make_date_def)
qed

lemma strptime_20251121:
  "strptime ''20251121'' = Some \<lparr>year = 2025, month = 11, day = 21\<rparr>"
proof -
  have "valid_date 2025 11 21"
    by (simp add: valid_date_def days_in_month_def)
  from strptime_pad [OF this] show ?thesis
    by (simp add: pad4_def pad2_def digit_char_def)
qed

section \<open>Day-folder resolver: claims\<close>

lemma second_field_date:
  assumes "2 \<le> length (split (CHR ''_'') (stem p))"
      and "split (CHR ''_'') (stem p) ! 1 = pad4 y @ pad2 m @ pad2 d"
      and "valid_date y m d"
  shows "get_day_folder_name_for_path fromtimestamp fs p = Inr (pad2 d @ ''-'' @ pad2 m @ ''-'' @ pad4 y)"
  using assms by (simp add: get_day_folder_name_for_path_def strptime_pad strftime_def)

text \<open>
  Claim C8 says that every file name of the form \<open>prefix_YYYYMMDD_suffix\<close> with a valid date
  token gets the key of that date without the file system being consulted.  The source parses
  the second underscore-separated field of the stem, so a prefix with an underscore in it moves
  the token out of the parsed position: \<^verbatim>\<open>my_shot_20251121_220005.png\<close> has the form, with the
  valid token \<^verbatim>\<open>20251121\<close>, and the second field is \<^verbatim>\<open>shot\<close>; the file is then looked up, which
  raises when it is missing and gives the date of the modification time otherwise.  A dot in
  the prefix does the same, the stem being cut at the last dot: \<^verbatim>\<open>v1.2_20251121_220005\<close> has
  the stem \<^verbatim>\<open>v1\<close>.
\<close>

theorem underscore_prefix_counterexample:
  "name [''my_shot_20251121_220005.png'']
     = ''my_shot'' @ ''_'' @ ''20251121'' @ ''_'' @ ''220005.png''
   \<and> strptime ''20251121'' = Some \<lparr>year = 2025, month = 11, day = 21\<rparr>
   \<and> get_day_folder_name_for_path example_fromtimestamp [] [''my_shot_20251121_220005.png'']
      = Inl FileNotFoundError
   \<and> get_day_folder_name_for_path example_fromtimestamp
        [([''my_shot_20251121_220005.png''],
          \<lparr>st_size = 10, st_mtime = 1709640000, read_only = False\<rparr>)]
        [''my_shot_20251121_220005.png'']
      = Inr ''05-03-2024''
   \<and> name [''v1.2_20251121_220005''] = ''v1.2'' @ ''_'' @ ''20251121'' @ ''_'' @ ''220005''
   \<and> stem [''v1.2_20251121_220005''] = ''v1''
   \<and> get_day_folder_name_for_path example_fromtimestamp [] [''v1.2_20251121_220005'']
      = Inl FileNotFoundError"
proof -
  have 1: "split (CHR ''_'') (stem [''my_shot_20251121_220005.png''])
           = [''my'', ''shot'', ''20251121'', ''220005'']"
    by (simp add: stem_def name_def)
  have 2: "strptime ''shot'' = None"
    by (simp add: strptime_def regex_matches_def is_digit_def)
  have 3: "stem [''v1.2_20251121_220005''] = ''v1''"
    by (simp add: stem_def name_def)
  have a: "name [''my_shot_20251121_220005.png'']
             = ''my_shot'' @ ''_'' @ ''20251121'' @ ''_'' @ ''220005.png''"
    by (simp add: name_def)
  have b: "get_day_folder_name_for_path example_fromtimestamp []
             [''my_shot_20251121_220005.png''] = Inl FileNotFoundError"
    by (simp add: get_day_folder_name_for_path_def 1 2 mtime_day_folder_name_def stat_def)
  have c: "get_day_folder_name_for_path example_fromtimestamp
        [([''my_shot_20251121_220005.png''],
          \<lparr>st_size = 10, st_mtime = 1709640000, read_only = False\<rparr>)]
        [''my_shot_20251121_220005.png'']
      = Inr ''05-03-2024''"
    by (simp add: get_day_folder_name_for_path_def 1 2 mtime_day_folder_name_def stat_def
          example_fromtimestamp_def strftime_def pad4_def pad2_def digit_char_def)
  have d: "name [''v1.2_20251121_220005''] = ''v1.2'' @ ''_'' @ ''20251121'' @ ''_'' @ ''220005''"
    by (simp add: name_def)
  have e: "get_day_folder_name_for_path example_fromtimestamp [] [''v1.2_20251121_220005'']
             = Inl FileNotFoundError"
    by (simp add: get_day_folder_name_for_path_def 3 mtime_day_folder_name_def stat_def)
  show ?thesis
    by (intro conjI a strptime_20251121 b c d 3 e)
qed

text \<open>
  Claim C8, amended.  A file whose stem (the file name without its last extension, which is
  what the source splits) is \<open>prefix_YYYYMMDD_suffix\<close>, with no underscore in the prefix and a
  valid date as the token, gets the key \<open>DD-MM-YYYY\<close> of that date, on every file system and
  whatever \<^verbatim>\<open>datetime.fromtimestamp\<close> does: the file system is not consulted.  For
  \<^verbatim>\<open>screenshot_20251121_220005.png\<close> the stem is the name without \<^verbatim>\<open>.png\<close>.
\<close>

theorem filename_date_key:
  assumes "stem p = prefix @ ''_'' @ (pad4 y @ pad2 m @ pad2 d) @ ''_'' @ suffix"
      and "CHR ''_'' \<notin> set prefix"
      and "valid_date y m d"
  shows "get_day_folder_name_for_path fromtimestamp fs p = Inr (pad2 d @ ''-'' @ pad2 m @ ''-'' @ pad4 y)"
proof -
  have "split (CHR ''_'') (stem p)
        = prefix # (pad4 y @ pad2 m @ pad2 d) # split (CHR ''_'') suffix"
    using assms(2) split_append_sep [of "CHR ''_''" "pad4 y @ pad2 m @ pad2 d" suffix]
    by (simp add: assms(1) split_append_sep)
  then show ?thesis
    using assms(3) by (intro second_field_date) simp_all
qed

text \<open>The scenario of the specification: \<^verbatim>\<open>screenshot_20251121_220005.png\<close> gives \<^verbatim>\<open>21-11-2025\<close>.\<close>

theorem filename_date_key_witness:
  "stem [''shots'', ''21-11-2025'', ''screenshot_20251121_220005.png'']
     = ''screenshot'' @ ''_'' @ (pad4 2025 @ pad2 11 @ pad2 21) @ ''_'' @ ''220005''
   \<and> CHR ''_'' \<notin> set ''screenshot''
   \<and> valid_date 2025 11 21
   \<and> get_day_folder_name_for_path raising_fromtimestamp []
        [''shots'', ''21-11-2025'', ''screenshot_20251121_220005.png''] = Inr ''21-11-2025''"
proof -
  have 1: "stem [''shots'', ''21-11-2025'', ''screenshot_20251121_220005.png'']
     = ''screenshot'' @ ''_'' @ (pad4 2025 @ pad2 11 @ pad2 21) @ ''_'' @ ''220005''"
    by (simp add: stem_def name_def pad4_def pad2_def digit_char_def)
  have 2: "CHR ''_'' \<notin> set ''screenshot''" by simp
  have 3: "valid_date 2025 11 21"
    by (simp add: valid_date_def days_in_month_def)
  from filename_date_key [OF 1 2 3, of raising_fromtimestamp "[]"] 1 2 3 show ?thesis
    by (simp add: pad4_def pad2_def digit_char_def)
qed

text \<open>
  Claim C10.  The parser looks at the second underscore-separated field of the stem only: when
  there are at least two fields and the second is a valid date \<open>YYYYMMDD\<close>, the key is that
  date, whatever the later fields are and whether or not there are any; a stem without an
  underscore has a single field, and the result is that of the modification-time branch.
\<close>

theorem second_field_suffices:
  "(2 \<le> length (split (CHR ''_'') (stem p))
      \<and> split (CHR ''_'') (stem p) ! 1 = pad4 y @ pad2 m @ pad2 d \<and> valid_date y m d
     \<longrightarrow> get_day_folder_name_for_path fromtimestamp fs p = Inr (pad2 d @ ''-'' @ pad2 m @ ''-'' @ pad4 y))
   \<and> (CHR ''_'' \<notin> set (stem p)
     \<longrightarrow> length (split (CHR ''_'') (stem p)) = 1
         \<and> get_day_folder_name_for_path fromtimestamp fs p = mtime_day_folder_name fromtimestamp fs p)"
proof (intro conjI impI)
  assume "2 \<le> length (split (CHR ''_'') (stem p))
      \<and> split (CHR ''_'') (stem p) ! 1 = pad4 y @ pad2 m @ pad2 d \<and> valid_date y m d"
  then show "get_day_folder_name_for_path fromtimestamp fs p
             = Inr (pad2 d @ ''-'' @ pad2 m @ ''-'' @ pad4 y)"
    by (intro second_field_date) simp_all
next
  assume "CHR ''_'' \<notin> set (stem p)"
  then show "length (split (CHR ''_'') (stem p)) = 1"
    by (simp add: split_no_sep)
next
  assume "CHR ''_'' \<notin> set (stem p)"
  then show "get_day_folder_name_for_path fromtimestamp fs p = mtime_day_folder_name fromtimestamp fs p"
    by (simp add: split_no_sep get_day_folder_name_for_path_def)
qed

text \<open>
  \<^verbatim>\<open>prefix_20251121.png\<close> has no suffix field and still gives \<^verbatim>\<open>21-11-2025\<close>;
  \<^verbatim>\<open>plain.png\<close> has no underscore and goes to \<^verbatim>\<open>stat\<close> directly.
\<close>

theorem second_field_suffices_witness:
  "split (CHR ''_'') (stem [''prefix_20251121.png'']) = [''prefix'', pad4 2025 @ pad2 11 @ pad2 21]
   \<and> valid_date 2025 11 21
   \<and> get_day_folder_name_for_path raising_fromtimestamp [] [''prefix_20251121.png''] = Inr ''21-11-2025''
   \<and> CHR ''_'' \<notin> set (stem [''plain.png''])
   \<and> stat [] [''plain.png''] = Inl FileNotFoundError
   \<and> get_day_folder_name_for_path raising_fromtimestamp [] [''plain.png''] = Inl FileNotFoundError"
proof -
  have 1: "split (CHR ''_'') (stem [''prefix_20251121.png''])
           = [''prefix'', pad4 2025 @ pad2 11 @ pad2 21]"
    by (simp add: stem_def name_def pad4_def pad2_def digit_char_def)
  have 2: "valid_date 2025 11 21"
    by (simp add: valid_date_def days_in_month_def)
  have 3: "CHR ''_'' \<notin> set (stem [''plain.png''])"
    by (simp add: stem_def name_def)
  have 4: "mtime_day_folder_name raising_fromtimestamp [] [''plain.png''] = Inl FileNotFoundError"
    by (simp add: mtime_day_folder_name_def stat_def)
  have 5: "stat [] [''plain.png''] = Inl FileNotFoundError"
    by (simp add: stat_def)
  from second_field_suffices [of "[''prefix_20251121.png'']" 2025 11 21 raising_fromtimestamp "[]"]
       second_field_suffices [of "[''plain.png'']" 2025 11 21 raising_fromtimestamp "[]"]
       1 2 3 4 5
  show ?thesis
    by (simp add: pad4_def pad2_def digit_char_def)
qed

text \<open>
  Claim C5 says that every path without a parseable date token gets the key of its
  modification time without raising.  The fallback calls \<^verbatim>\<open>path.stat()\<close>, which raises when
  the file is not there: \<^verbatim>\<open>weird_name.png\<close> on an empty file system.
\<close>

theorem missing_file_counterexample:
  "split (CHR ''_'') (stem [''weird_name.png'']) = [''weird'', ''name'']
   \<and> strptime ''name'' = None
   \<and> get_day_folder_name_for_path example_fromtimestamp [] [''weird_name.png'']
      = Inl FileNotFoundError"
proof -
  have 1: "split (CHR ''_'') (stem [''weird_name.png'']) = [''weird'', ''name'']"
    by (simp add: stem_def name_def)
  have 2: "strptime ''name'' = None"
    by (simp add: strptime_def regex_matches_def is_digit_def)
  show ?thesis
    by (simp add: get_day_folder_name_for_path_def 1 2 mtime_day_folder_name_def stat_def)
qed

text \<open>
  Claim C5, amended.  The key is a function of the file name and of what \<^verbatim>\<open>stat\<close> returns
  for the path: two calls with the same file name and the same \<^verbatim>\<open>stat\<close> result give the same
  key.  For a path whose stem has no second field, or one that \<^verbatim>\<open>strptime\<close> rejects: when the
  file exists and \<^verbatim>\<open>datetime.fromtimestamp\<close> returns a date for its modification time, the
  result is that date as \<open>DD-MM-YYYY\<close> and nothing is raised; when the file does not exist,
  \<^verbatim>\<open>FileNotFoundError\<close> is raised, and any other failure of \<^verbatim>\<open>stat\<close> is raised as it is; when
  \<^verbatim>\<open>datetime.fromtimestamp\<close> raises for the modification time, that exception is raised.
\<close>

theorem mtime_date_key:
  "(name p = name p' \<and> stat fs p = stat fs' p'
      \<longrightarrow> get_day_folder_name_for_path fromtimestamp fs p
          = get_day_folder_name_for_path fromtimestamp fs' p')
   \<and> ((length (split (CHR ''_'') (stem p)) < 2 \<or> strptime (split (CHR ''_'') (stem p) ! 1) = None)
       \<and> stat fs p = Inr f \<and> fromtimestamp (st_mtime f) = Inr dt
      \<longrightarrow> get_day_folder_name_for_path fromtimestamp fs p
          = Inr (pad2 (day dt) @ ''-'' @ pad2 (month dt) @ ''-'' @ pad4 (year dt)))
   \<and> ((length (split (CHR ''_'') (stem p)) < 2 \<or> strptime (split (CHR ''_'') (stem p) ! 1) = None)
       \<and> \<not> exists fs p
      \<longrightarrow> get_day_folder_name_for_path fromtimestamp fs p = Inl FileNotFoundError)
   \<and> ((length (split (CHR ''_'') (stem p)) < 2 \<or> strptime (split (CHR ''_'') (stem p) ! 1) = None)
       \<and> stat fs p = Inl e
      \<longrightarrow> get_day_folder_name_for_path fromtimestamp fs p = Inl e)
   \<and> ((length (split (CHR ''_'') (stem p)) < 2 \<or> strptime (split (CHR ''_'') (stem p) ! 1) = None)
       \<and> stat fs p = Inr f \<and> fromtimestamp (st_mtime f) = Inl e
      \<longrightarrow> get_day_folder_name_for_path fromtimestamp fs p = Inl e)"
proof (intro conjI impI)
  assume "name p = name p' \<and> stat fs p = stat fs' p'"
  then have s: "stem p = stem p'"
    and m: "mtime_day_folder_name fromtimestamp fs p = mtime_day_folder_name fromtimestamp fs' p'"
    by (simp_all add: stem_def mtime_day_folder_name_def)
  show "get_day_folder_name_for_path fromtimestamp fs p
        = get_day_folder_name_for_path fromtimestamp fs' p'"
    unfolding get_day_folder_name_for_path_def s m ..
next
  assume a: "(length (split (CHR ''_'') (stem p)) < 2
               \<or> strptime (split (CHR ''_'') (stem p) ! 1) = None)
             \<and> stat fs p = Inr f \<and> fromtimestamp (st_mtime f) = Inr dt"
  then have "mtime_day_folder_name fromtimestamp fs p = Inr (strftime dt)"
    by (simp add: mtime_day_folder_name_def)
  with a show "get_day_folder_name_for_path fromtimestamp fs p
               = Inr (pad2 (day dt) @ ''-'' @ pad2 (month dt) @ ''-'' @ pad4 (year dt))"
    by (auto simp: get_day_folder_name_for_path_def strftime_def Let_def)
next
  assume a: "(length (split (CHR ''_'') (stem p)) < 2
               \<or> strptime (split (CHR ''_'') (stem p) ! 1) = None)
             \<and> \<not> exists fs p"
  then have "mtime_day_folder_name fromtimestamp fs p = Inl FileNotFoundError"
    by (simp add: mtime_day_folder_name_def stat_def exists_def)
  with a show "get_day_folder_name_for_path fromtimestamp fs p = Inl FileNotFoundError"
    by (auto simp: get_day_folder_name_for_path_def Let_def)
next
  assume a: "(length (split (CHR ''_'') (stem p)) < 2
               \<or> strptime (split (CHR ''_'') (stem p) ! 1) = None)
             \<and> stat fs p = Inl e"
  then have "mtime_day_folder_name fromtimestamp fs p = Inl e"
    by (simp add: mtime_day_folder_name_def)
  with a show "get_day_folder_name_for_path fromtimestamp fs p = Inl e"
    by (auto simp: get_day_folder_name_for_path_def Let_def)
next
  assume a: "(length (split (CHR ''_'') (stem p)) < 2
               \<or> strptime (split (CHR ''_'') (stem p) ! 1) = None)
             \<and> stat fs p = Inr f \<and> fromtimestamp (st_mtime f) = Inl e"
  then have "mtime_day_folder_name fromtimestamp fs p = Inl e"
    by (simp add: mtime_day_folder_name_def)
  with a show "get_day_folder_name_for_path fromtimestamp fs p = Inl e"
    by (auto simp: get_day_folder_name_for_path_def Let_def)
qed

text \<open>
  The scenario of the specification: \<^verbatim>\<open>weird_name.png\<close> modified on 2024-03-05 gives
  \<^verbatim>\<open>05-03-2024\<close>, on two file systems that agree on the file; on a file system without the
  file the call raises; and on a platform that cannot convert the timestamp the call raises.
\<close>

theorem mtime_date_key_witness:
  "strptime (split (CHR ''_'') (stem [''weird_name.png'']) ! 1) = None
   \<and> stat [([''weird_name.png''], \<lparr>st_size = 10, st_mtime = 1709640000, read_only = False\<rparr>)]
        [''weird_name.png'']
      = Inr \<lparr>st_size = 10, st_mtime = 1709640000, read_only = False\<rparr>
   \<and> example_fromtimestamp 1709640000 = Inr \<lparr>year = 2024, month = 3, day = 5\<rparr>
   \<and> get_day_folder_name_for_path example_fromtimestamp
        [([''weird_name.png''], \<lparr>st_size = 10, st_mtime = 1709640000, read_only = False\<rparr>)]
        [''weird_name.png''] = Inr ''05-03-2024''
   \<and> get_day_folder_name_for_path example_fromtimestamp
        [([''other''], \<lparr>st_size = 3, st_mtime = 5, read_only = False\<rparr>),
         ([''weird_name.png''], \<lparr>st_size = 10, st_mtime = 1709640000, read_only = False\<rparr>)]
        [''weird_name.png''] = Inr ''05-03-2024''
   \<and> \<not> exists [([''other''], \<lparr>st_size = 3, st_mtime = 5, read_only = False\<rparr>)] [''weird_name.png'']
   \<and> get_day_folder_name_for_path example_fromtimestamp
        [([''other''], \<lparr>st_size = 3, st_mtime = 5, read_only = False\<rparr>)]
        [''weird_name.png''] = Inl FileNotFoundError
   \<and> raising_fromtimestamp 1709640000 = Inl ValueError
   \<and> get_day_folder_name_for_path raising_fromtimestamp
        [([''weird_name.png''], \<lparr>st_size = 10, st_mtime = 1709640000, read_only = False\<rparr>)]
        [''weird_name.png''] = Inl ValueError"
proof -
  let ?f = "\<lparr>st_size = 10, st_mtime = 1709640000, read_only = False\<rparr>"
  let ?g = "\<lparr>st_size = 3, st_mtime = 5, read_only = False\<rparr>"
  let ?p = "[''weird_name.png'']"
  let ?fs = "[(?p, ?f)]"
  let ?fs' = "[([''other''], ?g), (?p, ?f)]"
  let ?es = "[([''other''], ?g)]"
  let ?d = "\<lparr>year = 2024, month = 3, day = 5\<rparr>"
  have 1: "strptime (split (CHR ''_'') (stem ?p) ! 1) = None"
    by (simp add: stem_def name_def strptime_def regex_matches_def is_digit_def)
  have 2: "stat ?fs ?p = Inr ?f" and 3: "stat ?fs' ?p = Inr ?f"
    by (simp_all add: stat_def)
  have 4: "example_fromtimestamp 1709640000 = Inr ?d"
    by (simp add: example_fromtimestamp_def)
  have 5: "\<not> exists ?es ?p"
    by (simp add: exists_def)
  have 6: "raising_fromtimestamp 1709640000 = Inl ValueError"
    by (simp add: raising_fromtimestamp_def)
  note T = mtime_date_key [of ?p ?p ?fs' ?fs example_fromtimestamp ?f ?d]
  have k: "get_day_folder_name_for_path example_fromtimestamp ?fs' ?p
             = get_day_folder_name_for_path example_fromtimestamp ?fs ?p"
    using T [THEN conjunct1] 2 3 by simp
  have k': "get_day_folder_name_for_path example_fromtimestamp ?fs' ?p = Inr ''05-03-2024''"
    using T [THEN conjunct2, THEN conjunct1] 1 3 4
    by (simp add: pad4_def pad2_def digit_char_def)
  have k'': "get_day_folder_name_for_path example_fromtimestamp ?fs ?p = Inr ''05-03-2024''"
    by (rule trans [OF k [symmetric] k'])
  have m: "get_day_folder_name_for_path example_fromtimestamp ?es ?p = Inl FileNotFoundError"
    using mtime_date_key [of ?p ?p ?es ?es example_fromtimestamp ?f ?d,
            THEN conjunct2, THEN conjunct2, THEN conjunct1] 1 5
    by simp
  have r: "get_day_folder_name_for_path raising_fromtimestamp ?fs ?p = Inl ValueError"
    using mtime_date_key [of ?p ?p ?fs ?fs raising_fromtimestamp ?f ?d ValueError,
            THEN conjunct2, THEN conjunct2, THEN conjunct2, THEN conjunct2] 1 2 6
    by simp
  show ?thesis
    by (intro conjI 1 2 4 k' k'' 5 m 6 r)
qed
section \<open>Lemmas on rotation\<close>

lemma map_of_remove:
  "map_of (filter (\<lambda>(q, _). q \<noteq> x) fs) p = (if p = x then None else map_of fs p)"
  by (induction fs) auto

lemma map_of_try_unlink:
  "map_of (try_unlink fs q) p = (if p = q \<and> \<not> is_read_only fs q then None else map_of fs p)"
  by (auto simp: try_unlink_def unlink_def is_read_only_def map_of_remove split: option.splits)

lemma is_read_only_try_unlink:
  "is_read_only (try_unlink fs q) p = (if p = q \<and> \<not> is_read_only fs q then False else is_read_only fs p)"
  by (simp add: is_read_only_def map_of_try_unlink)

lemma map_of_try_unlink_all:
  "map_of (foldl try_unlink fs ps) p
   = (if p \<in> set ps \<and> \<not> is_read_only fs p then None else map_of fs p)"
proof (induction ps arbitrary: fs)
  case Nil
  then show ?case by simp
next
  case (Cons q ps)
  show ?case
    by (auto simp: Cons.IH map_of_try_unlink is_read_only_try_unlink is_read_only_def)
qed

lemma logging_simps [simp]:
  "disk (logging e w) = disk w" "remote (logging e w) = remote w"
  "logs (logging e w) = logs w @ [e]"
  by (simp_all add: logging_def)

lemma rotate_step_disk:
  "disk (case unlink (disk w) q of Inr fs' \<Rightarrow> w\<lparr>disk := fs'\<rparr>
         | Inl e \<Rightarrow> logging (ErrorDeletingFile q e) w)
   = try_unlink (disk w) q"
  by (simp add: try_unlink_def split: sum.splits)

lemma rotate_step_remote:
  "remote (case unlink (disk w) q of Inr fs' \<Rightarrow> w\<lparr>disk := fs'\<rparr>
         | Inl e \<Rightarrow> logging (ErrorDeletingFile q e) w)
   = remote w"
  by (simp split: sum.splits)

lemma rotate_step_logs:
  "\<exists>l. logs (case unlink (disk w) q of Inr fs' \<Rightarrow> w\<lparr>disk := fs'\<rparr>
         | Inl e \<Rightarrow> logging (ErrorDeletingFile q e) w) = logs w @ l
       \<and> deletion_attempts l = []"
  by (auto simp: deletion_attempts_def split: sum.splits)

lemma deletion_attempts_append [simp]:
  "deletion_attempts (a @ b) = deletion_attempts a @ deletion_attempts b"
  by (simp add: deletion_attempts_def)

lemma deletion_attempts_simps [simp]:
  "deletion_attempts [] = []"
  "deletion_attempts (DeletingOldScreenshot p # l) = p # deletion_attempts l"
  "deletion_attempts [RotationComplete] = []"
  "deletion_attempts [StartingRotation] = []"
  by (simp_all add: deletion_attempts_def)

text \<open>What the loop of a rotation does, in terms of the candidates in their order.\<close>

lemma rotate_loop_char:
  fixes w :: "'r world"
  shows "\<exists>l k. logs (rotate_loop folder mx prot files w) = logs w @ l
    \<and> deletion_attempts l = take k (filter (\<lambda>p. p \<notin> prot) files)
    \<and> disk (rotate_loop folder mx prot files w)
        = foldl try_unlink (disk w) (take k (filter (\<lambda>p. p \<notin> prot) files))
    \<and> remote (rotate_loop folder mx prot files w) = remote w
    \<and> (\<forall>j. 0 < j \<and> j < k \<longrightarrow>
          \<not> get_folder_size_mb
               (foldl try_unlink (disk w) (take j (filter (\<lambda>p. p \<notin> prot) files))) folder \<le> mx)
    \<and> k \<le> length (filter (\<lambda>p. p \<notin> prot) files)
    \<and> (k < length (filter (\<lambda>p. p \<notin> prot) files) \<longrightarrow>
          get_folder_size_mb (disk (rotate_loop folder mx prot files w)) folder \<le> mx)"
proof (induction files arbitrary: w)
  case Nil
  show ?case by simp
next
  case (Cons q files)
  show ?case
  proof (cases "q \<in> prot")
    case True
    with Cons.IH [of w] show ?thesis by simp
  next
    case False
    define w1 where "w1 = logging (DeletingOldScreenshot q) w"
    define w2 where "w2 = (case unlink (disk w1) q of Inr fs' \<Rightarrow> w1\<lparr>disk := fs'\<rparr>
         | Inl e \<Rightarrow> logging (ErrorDeletingFile q e) w1)"
    have d2: "disk w2 = try_unlink (disk w) q"
      unfolding w2_def rotate_step_disk by (simp add: w1_def)
    have r2: "remote w2 = remote w"
      unfolding w2_def rotate_step_remote by (simp add: w1_def)
    obtain l2 where l2: "logs w2 = logs w1 @ l2" "deletion_attempts l2 = []"
      unfolding w2_def using rotate_step_logs [where w = w1 and q = q] by blast
    let ?cands = "filter (\<lambda>p. p \<notin> prot) files"
    show ?thesis
    proof (cases "get_folder_size_mb (disk w2) folder \<le> mx")
      case True
      have res: "rotate_loop folder mx prot (q # files) w = logging RotationComplete w2"
        using False True unfolding w2_def w1_def by (simp add: Let_def)
      show ?thesis
        unfolding res
        apply (rule exI [of _ "DeletingOldScreenshot q # l2 @ [RotationComplete]"])
        apply (rule exI [of _ 1])
        using False True l2 d2 r2 by (auto simp: w1_def)
    next
      case big: False
      have res: "rotate_loop folder mx prot (q # files) w = rotate_loop folder mx prot files w2"
        using False big unfolding w2_def w1_def by (simp add: Let_def)
      from Cons.IH [of w2] obtain l k where
        ih: "logs (rotate_loop folder mx prot files w2) = logs w2 @ l"
          "deletion_attempts l = take k ?cands"
          "disk (rotate_loop folder mx prot files w2) = foldl try_unlink (disk w2) (take k ?cands)"
          "remote (rotate_loop folder mx prot files w2) = remote w2"
          "\<forall>j. 0 < j \<and> j < k \<longrightarrow>
             \<not> get_folder_size_mb (foldl try_unlink (disk w2) (take j ?cands)) folder \<le> mx"
          "k \<le> length ?cands"
          "k < length ?cands \<longrightarrow>
             get_folder_size_mb (disk (rotate_loop folder mx prot files w2)) folder \<le> mx"
        by blast
      have sizes: "\<not> get_folder_size_mb
               (foldl try_unlink (disk w) (take j (q # ?cands))) folder \<le> mx"
        if "0 < j \<and> j < Suc k" for j
      proof (cases j)
        case 0
        with that show ?thesis by simp
      next
        case (Suc i)
        show ?thesis
        proof (cases i)
          case 0
          with Suc big d2 show ?thesis by simp
        next
          case (Suc i')
          with \<open>j = Suc i\<close> that ih(5) d2 show ?thesis by simp
        qed
      qed
      show ?thesis
        unfolding res
        apply (rule exI [of _ "DeletingOldScreenshot q # l2 @ l"])
        apply (rule exI [of _ "Suc k"])
        using False ih(1-4,6,7) l2 d2 r2 sizes by (auto simp: w1_def)
    qed
  qed
qed

lemma new_logs_append [simp]: "logs w' = logs w @ l \<Longrightarrow> new_logs w w' = l"
  by (simp add: new_logs_def)

lemma new_logs_same [simp]: "new_logs w w = []"
  by (simp add: new_logs_def)

text \<open>A call of \<^verbatim>\<open>rotate_screenshots\<close>, in terms of its candidates: the unprotected files, oldest first.\<close>

lemma rotate_screenshots_char:
  fixes w :: "'r world" and folder mx protected
  defines "w' \<equiv> rotate_screenshots folder mx protected w"
  defines "cands \<equiv> filter (\<lambda>p. p \<notin> protected_paths protected)
                     (sort_key (mtime_of (disk w)) (rglob_files (disk w) folder))"
  shows "\<exists>k. deletion_attempts (new_logs w w') = take k cands
    \<and> k \<le> length cands
    \<and> disk w' = foldl try_unlink (disk w) (take k cands)
    \<and> remote w' = remote w
    \<and> (\<exists>l. logs w' = logs w @ l)
    \<and> (\<forall>j<k. \<not> get_folder_size_mb (foldl try_unlink (disk w) (take j cands)) folder \<le> mx)
    \<and> (mx \<le> 0 \<or> k < length cands \<longrightarrow> mx \<le> 0 \<or> get_folder_size_mb (disk w') folder \<le> mx)"
proof (cases "mx \<le> 0 \<or> get_folder_size_mb (disk w) folder \<le> mx")
  case True
  then have "w' = w"
    by (auto simp: w'_def rotate_screenshots_def)
  with True show ?thesis
    by (intro exI [of _ 0]) auto
next
  case False
  define w1 where "w1 = logging StartingRotation w"
  have res: "w' = rotate_loop folder mx (protected_paths protected)
                    (sort_key (mtime_of (disk w)) (rglob_files (disk w) folder)) w1"
    using False
    by (simp add: w'_def rotate_screenshots_def Let_def protected_paths_def w1_def)
  from rotate_loop_char [of folder mx "protected_paths protected"
      "sort_key (mtime_of (disk w)) (rglob_files (disk w) folder)" w1]
  obtain l k where
    ih: "logs w' = logs w1 @ l"
      "deletion_attempts l = take k cands"
      "disk w' = foldl try_unlink (disk w1) (take k cands)"
      "remote w' = remote w1"
      "\<forall>j. 0 < j \<and> j < k \<longrightarrow>
         \<not> get_folder_size_mb (foldl try_unlink (disk w1) (take j cands)) folder \<le> mx"
      "k \<le> length cands"
      "k < length cands \<longrightarrow> get_folder_size_mb (disk w') folder \<le> mx"
    unfolding res [symmetric] cands_def [symmetric] by blast
  have logs: "logs w' = logs w @ StartingRotation # l"
    using ih(1) by (simp add: w1_def)
  have sizes: "\<not> get_folder_size_mb (foldl try_unlink (disk w) (take j cands)) folder \<le> mx"
    if "j < k" for j
  proof (cases j)
    case 0
    with False show ?thesis by simp
  next
    case (Suc i)
    with that ih(5) show ?thesis by (simp add: w1_def)
  qed
  show ?thesis
    apply (rule exI [of _ k])
    using ih(2-4,6,7) sizes False logs by (auto simp: w1_def deletion_attempts_def)
qed

subsection \<open>The scenario of three files\<close>

lemma three_files_listing:
  "rglob_files (disk three_files) [''shots'']
   = [[''shots'', ''c.png''], [''shots'', ''b.png''], [''shots'', ''a.png'']]"
  by (simp add: three_files_def rglob_files_def is_under_def)

lemma three_files_size: "get_folder_size_mb (disk three_files) [''shots''] = 3"
  by (simp add: get_folder_size_mb_def three_files_listing)
     (simp add: three_files_def size_of_def)

lemma three_files_loop:
  "rotate_loop [''shots''] (1 / 2) {[''shots'', ''c.png'']}
     [[''shots'', ''a.png''], [''shots'', ''b.png''], [''shots'', ''c.png'']]
     (logging StartingRotation three_files)
   = \<lparr>disk = [([''shots'', ''c.png''], \<lparr>st_size = 1048576, st_mtime = 3, read_only = False\<rparr>),
              ([''shots'', ''b.png''], \<lparr>st_size = 1048576, st_mtime = 2, read_only = True\<rparr>)],
      remote = (),
      logs = [StartingRotation, DeletingOldScreenshot [''shots'', ''a.png''],
              DeletingOldScreenshot [''shots'', ''b.png''],
              ErrorDeletingFile [''shots'', ''b.png''] PermissionError]\<rparr>"
  by (simp add: three_files_def Let_def unlink_def logging_def get_folder_size_mb_def
        rglob_files_def is_under_def size_of_def)

lemma three_files_sorted:
  "sort_key (mtime_of (disk three_files))
     [[''shots'', ''c.png''], [''shots'', ''b.png''], [''shots'', ''a.png'']]
   = [[''shots'', ''a.png''], [''shots'', ''b.png''], [''shots'', ''c.png'']]"
  by (simp add: three_files_def mtime_of_def)

lemma three_files_rotation:
  "rotate_screenshots [''shots''] (1 / 2) (Some {[''shots'', ''c.png'']}) three_files
   = \<lparr>disk = [([''shots'', ''c.png''], \<lparr>st_size = 1048576, st_mtime = 3, read_only = False\<rparr>),
              ([''shots'', ''b.png''], \<lparr>st_size = 1048576, st_mtime = 2, read_only = True\<rparr>)],
      remote = (),
      logs = [StartingRotation, DeletingOldScreenshot [''shots'', ''a.png''],
              DeletingOldScreenshot [''shots'', ''b.png''],
              ErrorDeletingFile [''shots'', ''b.png''] PermissionError]\<rparr>"
  unfolding rotate_screenshots_def Let_def three_files_size three_files_listing
  by (simp add: three_files_listing three_files_sorted three_files_loop
           del: rotate_loop.simps sort_key_simps)

section \<open>Retention manager: claims\<close>

text \<open>
  Claim C9.  With a limit of zero or less, or a folder already within the limit, a rotation
  returns the world it was given: no file is removed, nothing is logged.
\<close>

theorem rotation_noop:
  "max_size_mb \<le> 0 \<or> get_folder_size_mb (disk w) folder \<le> max_size_mb
   \<Longrightarrow> rotate_screenshots folder max_size_mb protected w = w"
  by (auto simp: rotate_screenshots_def)


text \<open>
  The scenario of the specification: with a limit of 0 the empty folder is left alone, and so is
  the folder after it has grown to 3 MB; under a limit of 500 MB the 3 MB stay as well.
\<close>

theorem rotation_noop_witness:
  "rotate_screenshots [''shots''] 0 (Some {}) \<lparr>disk = [], remote = (), logs = []\<rparr>
     = \<lparr>disk = [], remote = (), logs = []\<rparr>
   \<and> get_folder_size_mb (disk three_files) [''shots''] = 3
   \<and> rotate_screenshots [''shots''] 0 (Some {}) three_files = three_files
   \<and> rotate_screenshots [''shots''] 500 None three_files = three_files"
proof -
  have 1: "(0::rat) \<le> 0
           \<or> get_folder_size_mb (disk \<lparr>disk = [], remote = (), logs = []\<rparr>) [''shots''] \<le> 0"
    by simp
  have 2: "(0::rat) \<le> 0 \<or> get_folder_size_mb (disk three_files) [''shots''] \<le> 0"
    by simp
  have 3: "(500::rat) \<le> 0 \<or> get_folder_size_mb (disk three_files) [''shots''] \<le> 500"
    by (simp add: three_files_size)
  show ?thesis
    by (intro conjI rotation_noop [OF 1] rotation_noop [OF 2] rotation_noop [OF 3]
          three_files_size)
qed

text \<open>
  Claim C3 says that a rotation ends with the folder within the limit or with every
  unprotected file removed.  A file whose \<^verbatim>\<open>unlink\<close> raises stays: the exception is caught and
  the loop goes on.  One read-only file of 2 MB under a limit of 1 MB is left in place.
\<close>

theorem undeletable_file_counterexample:
  "[''shots'', ''a.png''] \<in> set (rglob_files (disk one_locked_file) [''shots''])
   \<and> \<not> get_folder_size_mb
          (disk (rotate_screenshots [''shots''] 1 None one_locked_file)) [''shots''] \<le> 1
   \<and> exists (disk (rotate_screenshots [''shots''] 1 None one_locked_file))
        [''shots'', ''a.png'']"
proof -
  have files: "rglob_files (disk one_locked_file) [''shots''] = [[''shots'', ''a.png'']]"
    by (simp add: one_locked_file_def rglob_files_def is_under_def)
  have size: "get_folder_size_mb (disk one_locked_file) [''shots''] = 2"
    by (simp add: get_folder_size_mb_def files) (simp add: one_locked_file_def size_of_def)
  have "disk (rotate_screenshots [''shots''] 1 None one_locked_file) = disk one_locked_file"
    by (simp add: rotate_screenshots_def size files Let_def)
       (simp add: one_locked_file_def unlink_def logging_def)
  then show ?thesis
    by (simp add: files size) (simp add: one_locked_file_def exists_def)
qed

text \<open>
  Claim C3, amended.  The loop of a rotation makes at most one deletion attempt per enumerated
  file.  The attempts are an initial segment of the unprotected files in order of modification
  time, the file system afterwards is the one these attempts leave, and before every attempt
  the size was above the limit (it is recomputed after each attempt and the loop stops as soon
  as it is within the limit).  When a rotation with a positive limit returns, the folder is
  within the limit, or every unprotected enumerated file is gone except those whose deletion
  failed.
\<close>

theorem rotation_bounded:
  fixes w :: "'r world" and folder max_size_mb protected
  defines "w' \<equiv> rotate_screenshots folder max_size_mb protected w"
  defines "files \<equiv> rglob_files (disk w) folder"
  defines "cands \<equiv> filter (\<lambda>p. p \<notin> protected_paths protected)
                     (sort_key (mtime_of (disk w)) files)"
  defines "attempts \<equiv> deletion_attempts (new_logs w w')"
  shows "length attempts \<le> length files
    \<and> attempts = take (length attempts) cands
    \<and> disk w' = foldl try_unlink (disk w) attempts
    \<and> (\<forall>j<length attempts.
          \<not> get_folder_size_mb (foldl try_unlink (disk w) (take j attempts)) folder \<le> max_size_mb)
    \<and> (max_size_mb \<le> 0 \<or> get_folder_size_mb (disk w') folder \<le> max_size_mb
        \<or> (\<forall>p\<in>set files. p \<notin> protected_paths protected
              \<longrightarrow> \<not> exists (disk w') p \<or> is_read_only (disk w) p))"
proof -
  from rotate_screenshots_char [of w folder max_size_mb protected]
  obtain k where k: "attempts = take k cands" "k \<le> length cands"
    "disk w' = foldl try_unlink (disk w) (take k cands)"
    "\<forall>j<k. \<not> get_folder_size_mb (foldl try_unlink (disk w) (take j cands)) folder \<le> max_size_mb"
    "max_size_mb \<le> 0 \<or> k < length cands
       \<longrightarrow> max_size_mb \<le> 0 \<or> get_folder_size_mb (disk w') folder \<le> max_size_mb"
    unfolding attempts_def w'_def cands_def files_def by blast
  have len: "length attempts = k"
    using k(1,2) by simp
  have "length cands \<le> length (sort_key (mtime_of (disk w)) files)"
    unfolding cands_def by (rule length_filter_le)
  then have "length cands \<le> length files"
    by simp
  with len k(2) have 1: "length attempts \<le> length files" by simp
  have 2: "attempts = take (length attempts) cands"
    using k(1) len by simp
  have 3: "disk w' = foldl try_unlink (disk w) attempts"
    using k(1,3) by simp
  have 4: "\<forall>j<length attempts.
          \<not> get_folder_size_mb (foldl try_unlink (disk w) (take j attempts)) folder \<le> max_size_mb"
    using k(4) len k(1) by (simp add: min_def)
  have 5: "max_size_mb \<le> 0 \<or> get_folder_size_mb (disk w') folder \<le> max_size_mb
        \<or> (\<forall>p\<in>set files. p \<notin> protected_paths protected
              \<longrightarrow> \<not> exists (disk w') p \<or> is_read_only (disk w) p)"
  proof (cases "max_size_mb \<le> 0 \<or> k < length cands")
    case True
    with k(5) show ?thesis by blast
  next
    case False
    then have all: "attempts = cands" using k(1,2) by simp
    have "\<not> exists (disk w') p \<or> is_read_only (disk w) p"
      if "p \<in> set files" "p \<notin> protected_paths protected" for p
    proof -
      from that have "p \<in> set cands" by (simp add: cands_def)
      then show ?thesis
        unfolding 3 all by (simp add: exists_def map_of_try_unlink_all)
    qed
    then show ?thesis by blast
  qed
  from 1 2 3 4 5 show ?thesis by blast
qed

text \<open>
  In the scenario of three files with \<open>c\<close> protected and a limit of half a megabyte, the
  oldest file goes, the read-only one stays, and the folder ends above the limit.
\<close>

theorem rotation_bounded_witness:
  "deletion_attempts (new_logs three_files
      (rotate_screenshots [''shots''] (1 / 2) (Some {[''shots'', ''c.png'']}) three_files))
    = [[''shots'', ''a.png''], [''shots'', ''b.png'']]
   \<and> length (rglob_files (disk three_files) [''shots'']) = 3
   \<and> \<not> get_folder_size_mb (disk
        (rotate_screenshots [''shots''] (1 / 2) (Some {[''shots'', ''c.png'']}) three_files))
        [''shots''] \<le> 1 / 2
   \<and> \<not> exists (disk
        (rotate_screenshots [''shots''] (1 / 2) (Some {[''shots'', ''c.png'']}) three_files))
        [''shots'', ''a.png'']
   \<and> is_read_only (disk three_files) [''shots'', ''b.png'']
   \<and> [''shots'', ''c.png''] \<in> protected_paths (Some {[''shots'', ''c.png'']})"
proof -
  let ?w' = "rotate_screenshots [''shots''] (1 / 2) (Some {[''shots'', ''c.png'']}) three_files"
  note T = rotation_bounded [where w = three_files and folder = "[''shots'']"
      and max_size_mb = "1 / 2" and protected = "Some {[''shots'', ''c.png'']}"]
  have 1: "deletion_attempts (new_logs three_files ?w')
           = [[''shots'', ''a.png''], [''shots'', ''b.png'']]"
    unfolding three_files_rotation
    by (simp add: new_logs_def three_files_def deletion_attempts_def)
  have 2: "length (rglob_files (disk three_files) [''shots'']) = 3"
    by (simp add: three_files_listing)
  have 3: "\<not> get_folder_size_mb (disk ?w') [''shots''] \<le> 1 / 2"
    unfolding three_files_rotation
    by (simp add: get_folder_size_mb_def rglob_files_def is_under_def size_of_def)
  have 4: "is_read_only (disk three_files) [''shots'', ''b.png'']"
    by (simp add: is_read_only_def three_files_def)
  have 5: "[''shots'', ''c.png''] \<in> protected_paths (Some {[''shots'', ''c.png'']})"
    by (simp add: protected_paths_def)
  have "[''shots'', ''a.png''] \<in> set (rglob_files (disk three_files) [''shots''])"
    by (simp add: three_files_listing)
  moreover have "[''shots'', ''a.png''] \<notin> protected_paths (Some {[''shots'', ''c.png'']})"
    by (simp add: protected_paths_def)
  moreover have "\<not> is_read_only (disk three_files) [''shots'', ''a.png'']"
    by (simp add: is_read_only_def three_files_def)
  ultimately have 6: "\<not> exists (disk ?w') [''shots'', ''a.png'']"
    using T [THEN conjunct2, THEN conjunct2, THEN conjunct2, THEN conjunct2] 3 by auto
  from 1 2 3 4 5 6 show ?thesis by blast
qed

section \<open>Lemmas on the remote folder cache\<close>

text \<open>The four ways a call of \<^verbatim>\<open>ensure_mega_day_folder\<close> can go.\<close>

lemma ensure_cases:
  fixes w :: "'r world"
  obtains (hit) h where "cache k = Some h"
      "ensure_mega_day_folder c u k cache w = (Some h, cache, w)"
  | (raised) e r' where "cache k = None"
      "create_folder c (u @ ''/'' @ k) (remote w) = (Inl e, r')"
      "ensure_mega_day_folder c u k cache w
       = (None, cache, w\<lparr>remote := r',
            logs := logs w @ [EnsuringFolderExists (u @ ''/'' @ k), ErrorCreatingFolder u k e]\<rparr>)"
  | (no_handle) d r' where "cache k = None"
      "create_folder c (u @ ''/'' @ k) (remote w) = (Inr d, r')"
      "d k = None \<or> d k = Some []"
      "ensure_mega_day_folder c u k cache w
       = (None, cache, w\<lparr>remote := r',
            logs := logs w @ [EnsuringFolderExists (u @ ''/'' @ k),
                              NoNodeIdReturned (u @ ''/'' @ k)]\<rparr>)"
  | (created) d r' h where "cache k = None"
      "create_folder c (u @ ''/'' @ k) (remote w) = (Inr d, r')"
      "d k = Some h" "h \<noteq> []"
      "ensure_mega_day_folder c u k cache w
       = (Some h, cache(k \<mapsto> h), w\<lparr>remote := r',
            logs := logs w @ [EnsuringFolderExists (u @ ''/'' @ k), UsingFolder u k h]\<rparr>)"
proof (cases "cache k")
  case (Some h)
  then show ?thesis
    by (intro hit [of h]) (simp_all add: ensure_mega_day_folder_def)
next
  case None
  obtain res r' where cf: "create_folder c (u @ ''/'' @ k) (remote w) = (res, r')"
    by (cases "create_folder c (u @ ''/'' @ k) (remote w)")
  show ?thesis
  proof (cases res)
    case (Inl e)
    with None cf show ?thesis
      by (intro raised [of e r']) (simp_all add: ensure_mega_day_folder_def logging_def Let_def)
  next
    case (Inr d)
    show ?thesis
    proof (cases "d k = None \<or> d k = Some []")
      case True
      with None cf Inr show ?thesis
        by (intro no_handle [of d r'])
           (auto simp: ensure_mega_day_folder_def logging_def Let_def)
    next
      case False
      then obtain h where "d k = Some h" "h \<noteq> []" by auto
      with None cf Inr show ?thesis
        by (intro created [of d r' h])
           (simp_all add: ensure_mega_day_folder_def logging_def Let_def)
    qed
  qed
qed


lemma create_folder_counts_append [simp]:
  "create_folder_calls u k (a @ b) = create_folder_calls u k a + create_folder_calls u k b"
  "create_folder_successes u k (a @ b)
   = create_folder_successes u k a + create_folder_successes u k b"
  "create_folder_failures u k (a @ b)
   = create_folder_failures u k a + create_folder_failures u k b"
  by (simp_all add: create_folder_calls_def create_folder_successes_def
        create_folder_failures_def)

lemma create_folder_counts_Nil [simp]:
  "create_folder_calls u k [] = 0" "create_folder_successes u k [] = 0"
  "create_folder_failures u k [] = 0"
  by (simp_all add: create_folder_calls_def create_folder_successes_def
        create_folder_failures_def)

text \<open>One call, seen from any day key \<open>k\<close>.\<close>

lemma ensure_counts:
  fixes w :: "'r world"
  assumes "ensure_mega_day_folder c u j cache w = (node, cache', w')"
  shows "\<exists>l. logs w' = logs w @ l \<and> disk w' = disk w
    \<and> create_folder_calls u k l = create_folder_failures u k l + create_folder_successes u k l
    \<and> (cache k \<noteq> None \<longrightarrow> create_folder_calls u k l = 0 \<and> cache' k = cache k)
    \<and> (cache k = None \<longrightarrow> create_folder_successes u k l = (if cache' k = None then 0 else 1))"
proof (cases rule: ensure_cases [of cache j c u w])
  case (hit h)
  with assms show ?thesis by (intro exI [of _ "[]"]) auto
next
  case (raised e r')
  with assms show ?thesis
    by (intro exI [of _ "[EnsuringFolderExists (u @ ''/'' @ j), ErrorCreatingFolder u j e]"])
       (auto simp: create_folder_calls_def create_folder_successes_def
          create_folder_failures_def)
next
  case (no_handle d r')
  with assms show ?thesis
    by (intro exI [of _ "[EnsuringFolderExists (u @ ''/'' @ j), NoNodeIdReturned (u @ ''/'' @ j)]"])
       (auto simp: create_folder_calls_def create_folder_successes_def
          create_folder_failures_def)
next
  case (created d r' h)
  with assms show ?thesis
    by (intro exI [of _ "[EnsuringFolderExists (u @ ''/'' @ j), UsingFolder u j h]"])
       (auto simp: create_folder_calls_def create_folder_successes_def
          create_folder_failures_def)
qed

lemma ensure_all_counts:
  fixes w :: "'r world"
  shows "\<exists>l. logs (snd (ensure_all c u ks (cache, w))) = logs w @ l
    \<and> disk (snd (ensure_all c u ks (cache, w))) = disk w
    \<and> create_folder_calls u k l = create_folder_failures u k l + create_folder_successes u k l
    \<and> (cache k \<noteq> None \<longrightarrow> create_folder_calls u k l = 0)
    \<and> create_folder_successes u k l \<le> 1"
proof (induction ks arbitrary: cache w)
  case Nil
  show ?case by simp
next
  case (Cons j ks)
  obtain node cache' w' where e: "ensure_mega_day_folder c u j cache w = (node, cache', w')"
    by (cases "ensure_mega_day_folder c u j cache w")
  from ensure_counts [OF e, of k] obtain l1 where l1: "logs w' = logs w @ l1" "disk w' = disk w"
    "create_folder_calls u k l1 = create_folder_failures u k l1 + create_folder_successes u k l1"
    "cache k \<noteq> None \<longrightarrow> create_folder_calls u k l1 = 0 \<and> cache' k = cache k"
    "cache k = None \<longrightarrow> create_folder_successes u k l1 = (if cache' k = None then 0 else 1)"
    by (elim exE conjE) (rule that; assumption)
  from Cons.IH [of cache' w'] obtain l2 where
    l2: "logs (snd (ensure_all c u ks (cache', w'))) = logs w' @ l2"
    "disk (snd (ensure_all c u ks (cache', w'))) = disk w'"
    "create_folder_calls u k l2 = create_folder_failures u k l2 + create_folder_successes u k l2"
    "cache' k \<noteq> None \<longrightarrow> create_folder_calls u k l2 = 0"
    "create_folder_successes u k l2 \<le> 1"
    by (elim exE conjE) (rule that; assumption)
  have step: "ensure_all c u (j # ks) (cache, w) = ensure_all c u ks (cache', w')"
    by (simp add: e)
  have s1: "create_folder_successes u k l1 \<le> 1"
    using l1(3,4,5) by (cases "cache k") (simp_all split: if_splits)
  have succ: "create_folder_successes u k l1 + create_folder_successes u k l2 \<le> 1"
  proof (cases "cache' k = None")
    case True
    have "create_folder_successes u k l1 = 0"
    proof (cases "cache k")
      case None
      with l1(5) True show ?thesis by simp
    next
      case (Some h)
      with l1(3,4) show ?thesis by simp
    qed
    with l2(5) show ?thesis by simp
  next
    case False
    with l2(3,4) have "create_folder_successes u k l2 = 0" by simp
    with s1 show ?thesis by simp
  qed
  have hit: "cache k \<noteq> None \<longrightarrow> create_folder_calls u k (l1 @ l2) = 0"
    using l1(4) l2(4) by simp
  have sum: "create_folder_calls u k (l1 @ l2)
             = create_folder_failures u k (l1 @ l2) + create_folder_successes u k (l1 @ l2)"
    using l1(3) l2(3) by simp
  have logs: "logs (snd (ensure_all c u ks (cache', w'))) = logs w @ l1 @ l2"
    using l1(1) l2(1) by simp
  have disk: "disk (snd (ensure_all c u ks (cache', w'))) = disk w"
    using l1(2) l2(2) by simp
  have succ': "create_folder_successes u k (l1 @ l2) \<le> 1"
    using succ by simp
  show ?case
    unfolding step
    by (rule exI [of _ "l1 @ l2"]) (intro conjI logs disk sum hit succ')
qed

text \<open>A run of four calls against a service that creates every folder.\<close>

lemma obliging_run:
  "ensure_all obliging_client ''user'' [''21-11-2025'', ''21-11-2025'', ''22-11-2025'', ''21-11-2025'']
     (Map.empty, \<lparr>disk = [], remote = [], logs = []\<rparr>)
   = ([''21-11-2025'' \<mapsto> ''#user/21-11-2025'', ''22-11-2025'' \<mapsto> ''#user/22-11-2025''],
      \<lparr>disk = [], remote = [],
       logs = [EnsuringFolderExists ''user/21-11-2025'',
               UsingFolder ''user'' ''21-11-2025'' ''#user/21-11-2025'',
               EnsuringFolderExists ''user/22-11-2025'',
               UsingFolder ''user'' ''22-11-2025'' ''#user/22-11-2025'']\<rparr>)"
  by (simp add: ensure_mega_day_folder_def obliging_client_def logging_def Let_def)

section \<open>Remote folder cache: claims\<close>

text \<open>
  Claim C4 says that at most one create-folder call is issued per day key in a run.  A call
  whose response has no node id leaves the cache as it was, so the next call for the same key
  calls \<^verbatim>\<open>create_folder\<close> again: two calls for one key, two remote calls.
\<close>

theorem repeated_create_counterexample:
  "create_folder_calls ''user'' ''21-11-2025''
     (logs (snd (ensure_all no_handle_client ''user'' [''21-11-2025'', ''21-11-2025'']
                   (Map.empty, \<lparr>disk = [], remote = 0, logs = []\<rparr>)))) = 2
   \<and> remote (snd (ensure_all no_handle_client ''user'' [''21-11-2025'', ''21-11-2025'']
                   (Map.empty, \<lparr>disk = [], remote = 0, logs = []\<rparr>))) = 2"
  by (simp add: ensure_mega_day_folder_def no_handle_client_def logging_def Let_def
        create_folder_calls_def)

text \<open>
  Claim C4, amended.  A call for a key that is in the cache returns the cached node id at once:
  the world is unchanged, so nothing was sent to the remote service.  In every run of calls,
  from any cache and for every day key, at most one create-folder call returns a node id; the
  calls issued for the key are that one and the failed ones (a response without the node id,
  or an exception), which are not cached; for a key in the cache at the start none is issued.
\<close>

theorem one_successful_create_per_key:
  fixes w :: "'r world"
  shows "(cache k = Some h \<longrightarrow> ensure_mega_day_folder c u k cache w = (Some h, cache, w))
    \<and> create_folder_successes u k (new_logs w (snd (ensure_all c u ks (cache, w)))) \<le> 1
    \<and> create_folder_calls u k (new_logs w (snd (ensure_all c u ks (cache, w))))
        = create_folder_successes u k (new_logs w (snd (ensure_all c u ks (cache, w))))
          + create_folder_failures u k (new_logs w (snd (ensure_all c u ks (cache, w))))
    \<and> (cache k \<noteq> None
        \<longrightarrow> create_folder_calls u k (new_logs w (snd (ensure_all c u ks (cache, w)))) = 0)"
proof -
  from ensure_all_counts [of c u ks cache w k] obtain l where
    l: "logs (snd (ensure_all c u ks (cache, w))) = logs w @ l"
    "create_folder_calls u k l = create_folder_failures u k l + create_folder_successes u k l"
    "cache k \<noteq> None \<longrightarrow> create_folder_calls u k l = 0"
    "create_folder_successes u k l \<le> 1"
    by (elim exE conjE) (rule that; assumption)
  have n: "new_logs w (snd (ensure_all c u ks (cache, w))) = l"
    using l(1) by (rule new_logs_append)
  have "cache k = Some h \<longrightarrow> ensure_mega_day_folder c u k cache w = (Some h, cache, w)"
    by (simp add: ensure_mega_day_folder_def)
  then show ?thesis
    unfolding n using l(2-4) by simp
qed

text \<open>
  A hit in the cache leaves the world alone.  With a service that creates every folder, four
  calls for two keys issue one create-folder call for the first key; with one that never
  returns a node id, two calls for a key issue two, both counted as failures.
\<close>

theorem one_successful_create_per_key_witness:
  "[''21-11-2025'' \<mapsto> ''#n''] ''21-11-2025'' = Some ''#n''
   \<and> ensure_mega_day_folder obliging_client ''user'' ''21-11-2025''
        [''21-11-2025'' \<mapsto> ''#n''] \<lparr>disk = [], remote = [], logs = []\<rparr>
      = (Some ''#n'', [''21-11-2025'' \<mapsto> ''#n''], \<lparr>disk = [], remote = [], logs = []\<rparr>)
   \<and> create_folder_calls ''user'' ''21-11-2025''
        (new_logs \<lparr>disk = [], remote = [], logs = []\<rparr>
          (snd (ensure_all obliging_client ''user''
             [''21-11-2025'', ''21-11-2025'', ''22-11-2025'', ''21-11-2025'']
             (Map.empty, \<lparr>disk = [], remote = [], logs = []\<rparr>)))) = 1
   \<and> create_folder_successes ''user'' ''21-11-2025''
        (new_logs \<lparr>disk = [], remote = [], logs = []\<rparr>
          (snd (ensure_all obliging_client ''user''
             [''21-11-2025'', ''21-11-2025'', ''22-11-2025'', ''21-11-2025'']
             (Map.empty, \<lparr>disk = [], remote = [], logs = []\<rparr>)))) = 1
   \<and> create_folder_failures ''user'' ''21-11-2025''
        (new_logs \<lparr>disk = [], remote = 0, logs = []\<rparr>
          (snd (ensure_all no_handle_client ''user'' [''21-11-2025'', ''21-11-2025'']
             (Map.empty, \<lparr>disk = [], remote = 0, logs = []\<rparr>)))) = 2"
proof -
  let ?w = "\<lparr>disk = [], remote = [], logs = []\<rparr> :: path list world"
  let ?run = "snd (ensure_all obliging_client ''user''
             [''21-11-2025'', ''21-11-2025'', ''22-11-2025'', ''21-11-2025''] (Map.empty, ?w))"
  let ?v = "\<lparr>disk = [], remote = 0, logs = []\<rparr> :: nat world"
  let ?bad = "snd (ensure_all no_handle_client ''user'' [''21-11-2025'', ''21-11-2025'']
             (Map.empty, ?v))"
  have 1: "[''21-11-2025'' \<mapsto> ''#n''] ''21-11-2025'' = Some ''#n''"
    by simp
  note hit = one_successful_create_per_key
      [of "[''21-11-2025'' \<mapsto> ''#n'']" "''21-11-2025''" "''#n''" obliging_client "''user''" ?w "[]",
       THEN conjunct1, rule_format, OF 1]
  have s: "create_folder_successes ''user'' ''21-11-2025'' (new_logs ?w ?run) = 1"
    unfolding obliging_run by (simp add: new_logs_def create_folder_successes_def)
  note T = one_successful_create_per_key
      [of Map.empty "''21-11-2025''" "''#n''" obliging_client "''user''" ?w
          "[''21-11-2025'', ''21-11-2025'', ''22-11-2025'', ''21-11-2025'']",
       THEN conjunct2, THEN conjunct2, THEN conjunct1]
  have f: "create_folder_failures ''user'' ''21-11-2025'' (new_logs ?w ?run) = 0"
    unfolding obliging_run by (simp add: new_logs_def create_folder_failures_def)
  have c: "create_folder_calls ''user'' ''21-11-2025'' (new_logs ?w ?run) = 1"
    unfolding T s f by simp
  have b: "create_folder_failures ''user'' ''21-11-2025'' (new_logs ?v ?bad) = 2"
    by (simp add: ensure_mega_day_folder_def no_handle_client_def logging_def Let_def
          create_folder_failures_def new_logs_def)
  show ?thesis
    by (intro conjI 1 hit c s b)
qed

section \<open>Lemmas on the upload batcher\<close>

lemma ensure_frame:
  fixes w :: "'r world"
  assumes "ensure_mega_day_folder c u k cache w = (node, cache1, w1)"
  shows "\<exists>l. logs w1 = logs w @ l \<and> disk w1 = disk w
    \<and> (\<forall>q. \<not> upload_attempted q l) \<and> (\<forall>q. \<not> upload_confirmed q l)
    \<and> (\<forall>q. \<not> outcome_logged q l)"
proof (cases rule: ensure_cases [of cache k c u w])
  case (hit h)
  with assms show ?thesis
    by (intro exI [of _ "[]"])
       (simp add: upload_attempted_def upload_confirmed_def outcome_logged_def)
next
  case (raised e r')
  with assms show ?thesis
    by (intro exI [of _ "[EnsuringFolderExists (u @ ''/'' @ k), ErrorCreatingFolder u k e]"])
       (auto simp: upload_attempted_def upload_confirmed_def outcome_logged_def)
next
  case (no_handle d r')
  with assms show ?thesis
    by (intro exI [of _ "[EnsuringFolderExists (u @ ''/'' @ k), NoNodeIdReturned (u @ ''/'' @ k)]"])
       (auto simp: upload_attempted_def upload_confirmed_def outcome_logged_def)
next
  case (created d r' h)
  with assms show ?thesis
    by (intro exI [of _ "[EnsuringFolderExists (u @ ''/'' @ k), UsingFolder u k h]"])
       (auto simp: upload_attempted_def upload_confirmed_def outcome_logged_def)
qed

text \<open>The six ways the loop body of the batcher can go for a path.\<close>

lemma upload_one_cases:
  fixes w :: "'r world"
  obtains (vanished) "\<not> exists (disk w) p"
      "upload_one fromtimestamp c u p (up, cache, w)
       = (up @ [p], cache, logging (NoLongerExistsLocally p) w)"
  | (no_day) e where "exists (disk w) p"
      "get_day_folder_name_for_path fromtimestamp (disk w) p = Inl e"
      "upload_one fromtimestamp c u p (up, cache, w) = (up, cache, logging (ErrorUploading p e) w)"
  | (no_folder) k node cache1 w1 where "exists (disk w) p"
      "get_day_folder_name_for_path fromtimestamp (disk w) p = Inr k"
      "ensure_mega_day_folder c u k cache w = (node, cache1, w1)"
      "node = None \<or> node = Some []"
      "upload_one fromtimestamp c u p (up, cache, w) = (up, cache1, logging (SkippingUpload p) w1)"
  | (upload_failed) k h cache1 w1 e r' where "exists (disk w) p"
      "get_day_folder_name_for_path fromtimestamp (disk w) p = Inr k"
      "ensure_mega_day_folder c u k cache w = (Some h, cache1, w1)" "h \<noteq> []"
      "upload c p h (remote w1) = (Inl e, r')"
      "upload_one fromtimestamp c u p (up, cache, w)
       = (up, cache1, w1\<lparr>remote := r', logs := logs w1 @ [Uploading p u k, ErrorUploading p e]\<rparr>)"
  | (unlink_failed) k h cache1 w1 x r' e where "exists (disk w) p"
      "get_day_folder_name_for_path fromtimestamp (disk w) p = Inr k"
      "ensure_mega_day_folder c u k cache w = (Some h, cache1, w1)" "h \<noteq> []"
      "upload c p h (remote w1) = (Inr x, r')"
      "unlink (disk w1) p = Inl e"
      "upload_one fromtimestamp c u p (up, cache, w)
       = (up, cache1, w1\<lparr>remote := r',
            logs := logs w1 @ [Uploading p u k, UploadedDeletingLocal p, ErrorUploading p e]\<rparr>)"
  | (uploaded) k h cache1 w1 x r' fs' where "exists (disk w) p"
      "get_day_folder_name_for_path fromtimestamp (disk w) p = Inr k"
      "ensure_mega_day_folder c u k cache w = (Some h, cache1, w1)" "h \<noteq> []"
      "upload c p h (remote w1) = (Inr x, r')"
      "unlink (disk w1) p = Inr fs'"
      "upload_one fromtimestamp c u p (up, cache, w)
       = (up @ [p], cache1, w1\<lparr>disk := fs', remote := r',
            logs := logs w1 @ [Uploading p u k, UploadedDeletingLocal p]\<rparr>)"
proof (cases "exists (disk w) p")
  case False
  then show ?thesis
    by (intro vanished) (simp_all add: upload_one_def)
next
  case ex: True
  show ?thesis
  proof (cases "get_day_folder_name_for_path fromtimestamp (disk w) p")
    case (Inl e)
    with ex show ?thesis
      by (intro no_day [of e]) (simp_all add: upload_one_def)
  next
    case (Inr k)
    obtain node cache1 w1 where en: "ensure_mega_day_folder c u k cache w = (node, cache1, w1)"
      by (cases "ensure_mega_day_folder c u k cache w")
    show ?thesis
    proof (cases "node = None \<or> node = Some []")
      case True
      with ex Inr en show ?thesis
        by (intro no_folder [of k node cache1 w1]) (auto simp: upload_one_def)
    next
      case False
      then obtain h where h: "node = Some h" "h \<noteq> []" by auto
      obtain res r' where up: "upload c p h (remote w1) = (res, r')"
        by (cases "upload c p h (remote w1)")
      show ?thesis
      proof (cases res)
        case (Inl e)
        with ex Inr en h up show ?thesis
          by (intro upload_failed [of k h cache1 w1 e r'])
             (simp_all add: upload_one_def logging_def Let_def)
      next
        case r: (Inr x)
        show ?thesis
        proof (cases "unlink (disk w1) p")
          case (Inl e)
          with ex Inr en h up r show ?thesis
            by (intro unlink_failed [of k h cache1 w1 x r' e])
               (simp_all add: upload_one_def logging_def Let_def)
        next
          case un: (Inr fs')
          with ex Inr en h up r show ?thesis
            by (intro uploaded [of k h cache1 w1 x r' fs'])
               (simp_all add: upload_one_def logging_def Let_def)
        qed
      qed
    qed
  qed
qed


lemma upload_obs_append [simp]:
  "upload_attempted q (a @ b) = (upload_attempted q a \<or> upload_attempted q b)"
  "upload_confirmed q (a @ b) = (upload_confirmed q a \<or> upload_confirmed q b)"
  "outcome_logged q (a @ b) = (outcome_logged q a \<or> outcome_logged q b)"
  by (simp_all add: upload_attempted_def upload_confirmed_def outcome_logged_def)

lemma upload_obs_Nil [simp]:
  "\<not> upload_attempted q []" "\<not> upload_confirmed q []" "\<not> outcome_logged q []"
  by (simp_all add: upload_attempted_def upload_confirmed_def outcome_logged_def)

text \<open>What one pass of the loop body changes.\<close>

lemma upload_one_effect:
  fixes w :: "'r world"
  assumes "upload_one fromtimestamp c u p (up, cache, w) = (up', cache', w')"
  shows "\<exists>l. logs w' = logs w @ l \<and> outcome_logged p l
    \<and> (\<forall>q. upload_attempted q l \<longrightarrow> q = p \<and> exists (disk w) p)
    \<and> (\<forall>q. upload_confirmed q l \<longrightarrow> q = p \<and> exists (disk w) p)
    \<and> ((up' = up @ [p] \<and> \<not> exists (disk w) p \<and> disk w' = disk w)
       \<or> (up' = up @ [p] \<and> exists (disk w) p \<and> upload_confirmed p l
           \<and> unlink (disk w) p = Inr (disk w'))
       \<or> (up' = up \<and> exists (disk w) p \<and> disk w' = disk w))"
proof (cases rule: upload_one_cases [of w p fromtimestamp c u up cache])
  case vanished
  from assms vanished(2) have eq: "up' = up @ [p]" "w' = logging (NoLongerExistsLocally p) w"
    by simp_all
  show ?thesis
    unfolding eq using vanished(1)
    by (intro exI [of _ "[NoLongerExistsLocally p]"])
       (simp add: upload_attempted_def upload_confirmed_def outcome_logged_def)
next
  case (no_day e)
  from assms no_day(3) have eq: "up' = up" "w' = logging (ErrorUploading p e) w"
    by simp_all
  show ?thesis
    unfolding eq using no_day(1)
    by (intro exI [of _ "[ErrorUploading p e]"])
       (simp add: upload_attempted_def upload_confirmed_def outcome_logged_def)
next
  case (no_folder k node cache1 w1)
  from ensure_frame [OF no_folder(3)] obtain l1 where
    l1: "logs w1 = logs w @ l1" "disk w1 = disk w"
    "\<forall>q. \<not> upload_attempted q l1" "\<forall>q. \<not> upload_confirmed q l1"
    by (elim exE conjE) (rule that; assumption)
  from assms no_folder(5) have eq: "up' = up" "w' = logging (SkippingUpload p) w1"
    by simp_all
  show ?thesis
    unfolding eq using no_folder(1) l1
    by (intro exI [of _ "l1 @ [SkippingUpload p]"])
       (simp add: upload_attempted_def upload_confirmed_def outcome_logged_def)
next
  case (upload_failed k h cache1 w1 e r')
  from ensure_frame [OF upload_failed(3)] obtain l1 where
    l1: "logs w1 = logs w @ l1" "disk w1 = disk w"
    "\<forall>q. \<not> upload_attempted q l1" "\<forall>q. \<not> upload_confirmed q l1"
    by (elim exE conjE) (rule that; assumption)
  from assms upload_failed(6) have eq: "up' = up"
    "w' = w1\<lparr>remote := r', logs := logs w1 @ [Uploading p u k, ErrorUploading p e]\<rparr>"
    by simp_all
  show ?thesis
    unfolding eq using upload_failed(1) l1
    by (intro exI [of _ "l1 @ [Uploading p u k, ErrorUploading p e]"])
       (simp add: upload_attempted_def upload_confirmed_def outcome_logged_def)
next
  case (unlink_failed k h cache1 w1 x r' e)
  from ensure_frame [OF unlink_failed(3)] obtain l1 where
    l1: "logs w1 = logs w @ l1" "disk w1 = disk w"
    "\<forall>q. \<not> upload_attempted q l1" "\<forall>q. \<not> upload_confirmed q l1"
    by (elim exE conjE) (rule that; assumption)
  from assms unlink_failed(7) have eq: "up' = up"
    "w' = w1\<lparr>remote := r',
            logs := logs w1 @ [Uploading p u k, UploadedDeletingLocal p, ErrorUploading p e]\<rparr>"
    by simp_all
  show ?thesis
    unfolding eq using unlink_failed(1) l1
    by (intro exI [of _ "l1 @ [Uploading p u k, UploadedDeletingLocal p, ErrorUploading p e]"])
       (simp add: upload_attempted_def upload_confirmed_def outcome_logged_def)
next
  case (uploaded k h cache1 w1 x r' fs')
  from ensure_frame [OF uploaded(3)] obtain l1 where
    l1: "logs w1 = logs w @ l1" "disk w1 = disk w"
    "\<forall>q. \<not> upload_attempted q l1" "\<forall>q. \<not> upload_confirmed q l1"
    by (elim exE conjE) (rule that; assumption)
  from assms uploaded(7) have eq: "up' = up @ [p]"
    "w' = w1\<lparr>disk := fs', remote := r',
            logs := logs w1 @ [Uploading p u k, UploadedDeletingLocal p]\<rparr>"
    by simp_all
  show ?thesis
    unfolding eq using uploaded(1,6) l1
    by (intro exI [of _ "l1 @ [Uploading p u k, UploadedDeletingLocal p]"])
       (simp add: upload_attempted_def upload_confirmed_def outcome_logged_def)
qed

lemma unlink_map_of:
  "unlink fs p = Inr fs' \<Longrightarrow> map_of fs' q = (if q = p then None else map_of fs q)"
  by (auto simp: unlink_def map_of_remove split: option.splits if_splits)

text \<open>One pass of the loop body, with the paths it has added to the list of uploaded ones.\<close>

lemma upload_one_step:
  fixes w :: "'r world"
  assumes "upload_one fromtimestamp c u p (up, cache, w) = (up1, cache1, w1)"
  shows "\<exists>l new. up1 = up @ new \<and> logs w1 = logs w @ l \<and> set new \<subseteq> {p}
    \<and> (\<forall>q. map_of (disk w1) q = (if q \<in> set new then None else map_of (disk w) q))
    \<and> (p \<in> set new \<longleftrightarrow> \<not> exists (disk w1) p)
    \<and> (\<forall>q\<in>set new. exists (disk w) q \<longrightarrow> upload_confirmed q l)
    \<and> (\<forall>q. upload_attempted q l \<or> upload_confirmed q l \<longrightarrow> q = p \<and> exists (disk w) q)
    \<and> outcome_logged p l"
proof -
  from upload_one_effect [OF assms] obtain l where
    l: "logs w1 = logs w @ l" "outcome_logged p l"
    "\<forall>q. upload_attempted q l \<longrightarrow> q = p \<and> exists (disk w) p"
    "\<forall>q. upload_confirmed q l \<longrightarrow> q = p \<and> exists (disk w) p"
    "(up1 = up @ [p] \<and> \<not> exists (disk w) p \<and> disk w1 = disk w)
       \<or> (up1 = up @ [p] \<and> exists (disk w) p \<and> upload_confirmed p l
           \<and> unlink (disk w) p = Inr (disk w1))
       \<or> (up1 = up \<and> exists (disk w) p \<and> disk w1 = disk w)"
    by (elim exE conjE) (rule that; assumption)
  have att: "\<forall>q. upload_attempted q l \<or> upload_confirmed q l \<longrightarrow> q = p \<and> exists (disk w) q"
    using l(3,4) by blast
  from l(5) consider
    (vanished) "up1 = up @ [p]" "\<not> exists (disk w) p" "disk w1 = disk w"
    | (uploaded) "up1 = up @ [p]" "exists (disk w) p" "upload_confirmed p l"
        "unlink (disk w) p = Inr (disk w1)"
    | (kept) "up1 = up" "exists (disk w) p" "disk w1 = disk w"
    by blast
  then show ?thesis
  proof cases
    case vanished
    have m: "\<forall>q. map_of (disk w1) q = (if q \<in> set [p] then None else map_of (disk w) q)"
      using vanished(2) unfolding vanished(3) by (simp add: exists_def)
    have e: "p \<in> set [p] \<longleftrightarrow> \<not> exists (disk w1) p"
      using vanished(2) unfolding vanished(3) by simp
    have c: "\<forall>q\<in>set [p]. exists (disk w) q \<longrightarrow> upload_confirmed q l"
      using vanished(2) by simp
    show ?thesis
      by (rule exI [of _ l], rule exI [of _ "[p]"])
         (intro conjI vanished(1) l(1) m e c att l(2), simp)
  next
    case uploaded
    from unlink_map_of [OF uploaded(4)]
    have m: "\<forall>q. map_of (disk w1) q = (if q \<in> set [p] then None else map_of (disk w) q)"
      by simp
    then have e: "p \<in> set [p] \<longleftrightarrow> \<not> exists (disk w1) p"
      by (simp add: exists_def)
    have c: "\<forall>q\<in>set [p]. exists (disk w) q \<longrightarrow> upload_confirmed q l"
      using uploaded(3) by simp
    show ?thesis
      by (rule exI [of _ l], rule exI [of _ "[p]"])
         (intro conjI uploaded(1) l(1) m e c att l(2), simp)
  next
    case kept
    have m: "\<forall>q. map_of (disk w1) q = (if q \<in> set [] then None else map_of (disk w) q)"
      unfolding kept(3) by simp
    have e: "p \<in> set [] \<longleftrightarrow> \<not> exists (disk w1) p"
      using kept(2) unfolding kept(3) by simp
    have c: "\<forall>q\<in>set []. exists (disk w) q \<longrightarrow> upload_confirmed q l"
      by simp
    have u: "up1 = up @ []" using kept(1) by simp
    show ?thesis
      by (rule exI [of _ l], rule exI [of _ "[]"])
         (intro conjI u l(1) m e c att l(2), simp)
  qed
qed


text \<open>The whole loop: the invariant of the batcher.\<close>

lemma upload_loop_effect:
  fixes w :: "'r world"
  assumes "upload_loop fromtimestamp c u ps (up, cache, w) = (up', cache', w')"
  shows "\<exists>l new. up' = up @ new \<and> logs w' = logs w @ l \<and> set new \<subseteq> set ps
    \<and> (\<forall>q. map_of (disk w') q = (if q \<in> set new then None else map_of (disk w) q))
    \<and> (\<forall>q\<in>set ps. q \<in> set new \<longleftrightarrow> \<not> exists (disk w') q)
    \<and> (\<forall>q\<in>set new. exists (disk w) q \<longrightarrow> upload_confirmed q l)
    \<and> (\<forall>q. upload_attempted q l \<or> upload_confirmed q l \<longrightarrow> q \<in> set ps \<and> exists (disk w) q)
    \<and> (\<forall>q\<in>set ps. outcome_logged q l)"
  using assms
proof (induction ps arbitrary: up cache w)
  case Nil
  then have "up' = up @ []" "logs w' = logs w @ []" by simp_all
  moreover from Nil have "\<forall>q. map_of (disk w') q = (if q \<in> set [] then None else map_of (disk w) q)"
    by simp
  ultimately show ?case
    by (intro exI [of _ "[]"]) simp
next
  case (Cons p ps)
  obtain up1 cache1 w1 where s1: "upload_one fromtimestamp c u p (up, cache, w) = (up1, cache1, w1)"
    by (cases "upload_one fromtimestamp c u p (up, cache, w)")
  from Cons.prems s1 have rest: "upload_loop fromtimestamp c u ps (up1, cache1, w1) = (up', cache', w')"
    by simp
  from upload_one_step [OF s1] obtain l1 n1 where
    a: "up1 = up @ n1" "logs w1 = logs w @ l1" "set n1 \<subseteq> {p}"
    and m1: "\<forall>q. map_of (disk w1) q = (if q \<in> set n1 then None else map_of (disk w) q)"
    and e1: "p \<in> set n1 \<longleftrightarrow> \<not> exists (disk w1) p"
    and c1: "\<forall>q\<in>set n1. exists (disk w) q \<longrightarrow> upload_confirmed q l1"
    and t1: "\<forall>q. upload_attempted q l1 \<or> upload_confirmed q l1 \<longrightarrow> q = p \<and> exists (disk w) q"
    and o1: "outcome_logged p l1"
    by (elim exE conjE) (rule that; assumption)
  from Cons.IH [OF rest] obtain l2 n2 where
    b: "up' = up1 @ n2" "logs w' = logs w1 @ l2" "set n2 \<subseteq> set ps"
    and m2: "\<forall>q. map_of (disk w') q = (if q \<in> set n2 then None else map_of (disk w1) q)"
    and e2: "\<forall>q\<in>set ps. q \<in> set n2 \<longleftrightarrow> \<not> exists (disk w') q"
    and c2: "\<forall>q\<in>set n2. exists (disk w1) q \<longrightarrow> upload_confirmed q l2"
    and t2: "\<forall>q. upload_attempted q l2 \<or> upload_confirmed q l2
               \<longrightarrow> q \<in> set ps \<and> exists (disk w1) q"
    and o2: "\<forall>q\<in>set ps. outcome_logged q l2"
    by (elim exE conjE) (rule that; assumption)
  have ex1: "exists (disk w1) q \<longleftrightarrow> q \<notin> set n1 \<and> exists (disk w) q" for q
    using m1 by (simp add: exists_def)
  have ex2: "exists (disk w') q \<longleftrightarrow> q \<notin> set n2 \<and> exists (disk w1) q" for q
    using m2 by (simp add: exists_def)
  have 1: "up' = up @ (n1 @ n2)"
    using a(1) b(1) by simp
  have 2: "logs w' = logs w @ (l1 @ l2)"
    using a(2) b(2) by simp
  have 3: "set (n1 @ n2) \<subseteq> set (p # ps)"
    using a(3) b(3) by auto
  have 4: "\<forall>q. map_of (disk w') q = (if q \<in> set (n1 @ n2) then None else map_of (disk w) q)"
    using m1 m2 by simp
  have 5: "\<forall>q\<in>set (p # ps). q \<in> set (n1 @ n2) \<longleftrightarrow> \<not> exists (disk w') q"
  proof
    fix q assume q: "q \<in> set (p # ps)"
    show "q \<in> set (n1 @ n2) \<longleftrightarrow> \<not> exists (disk w') q"
    proof (cases "q = p")
      case True
      with e1 ex2 [of p] show ?thesis by auto
    next
      case False
      with q have "q \<in> set ps" by simp
      with e2 have "q \<in> set n2 \<longleftrightarrow> \<not> exists (disk w') q" by blast
      moreover from False a(3) have "q \<notin> set n1" by auto
      ultimately show ?thesis by simp
    qed
  qed
  have 6: "\<forall>q\<in>set (n1 @ n2). exists (disk w) q \<longrightarrow> upload_confirmed q (l1 @ l2)"
  proof (intro ballI impI)
    fix q assume q: "q \<in> set (n1 @ n2)" and ex: "exists (disk w) q"
    show "upload_confirmed q (l1 @ l2)"
    proof (cases "q \<in> set n1")
      case True
      with c1 ex show ?thesis by simp
    next
      case False
      with q have "q \<in> set n2" by simp
      moreover from False ex ex1 [of q] have "exists (disk w1) q" by simp
      ultimately show ?thesis using c2 by simp
    qed
  qed
  have 7: "\<forall>q. upload_attempted q (l1 @ l2) \<or> upload_confirmed q (l1 @ l2)
             \<longrightarrow> q \<in> set (p # ps) \<and> exists (disk w) q"
    using t1 t2 ex1 by auto
  have 8: "\<forall>q\<in>set (p # ps). outcome_logged q (l1 @ l2)"
    using o1 o2 by simp
  show ?case
    by (rule exI [of _ "l1 @ l2"], rule exI [of _ "n1 @ n2"]) (intro conjI 1 2 3 4 5 6 7 8)
qed

lemma get_day_stat_cong:
  "map_of fs p = map_of fs' p
   \<Longrightarrow> get_day_folder_name_for_path fromtimestamp fs p = get_day_folder_name_for_path fromtimestamp fs' p"
proof -
  assume "map_of fs p = map_of fs' p"
  then have m: "mtime_day_folder_name fromtimestamp fs p = mtime_day_folder_name fromtimestamp fs' p"
    by (simp add: mtime_day_folder_name_def stat_def)
  show ?thesis
    unfolding get_day_folder_name_for_path_def m ..
qed

subsection \<open>A batch in which nothing fails\<close>

lemma is_read_only_cong:
  "map_of fs p = map_of fs' p \<Longrightarrow> is_read_only fs p = is_read_only fs' p"
  by (simp add: is_read_only_def)

lemma unlink_succeeds:
  "exists fs p \<Longrightarrow> \<not> is_read_only fs p \<Longrightarrow> \<exists>fs'. unlink fs p = Inr fs'"
  by (auto simp: exists_def is_read_only_def unlink_def)

text \<open>
  A batch in which nothing fails: every folder is created, every upload is accepted, every
  file that is there can be deleted and has a day key.
\<close>

lemma upload_one_all_ok:
  fixes w :: "'r world"
  assumes R1: "\<forall>r. \<exists>d r' h. create_folder c (u @ ''/'' @ k) r = (Inr d, r') \<and> d k = Some h \<and> h \<noteq> []"
    and R2: "\<forall>h r. \<exists>x r'. upload c p h r = (Inr x, r')"
    and inv: "\<forall>j. cache j \<noteq> Some []"
    and ok: "\<not> is_read_only (disk w) p" "get_day_folder_name_for_path fromtimestamp (disk w) p = Inr k"
    and s: "upload_one fromtimestamp c u p (up, cache, w) = (up1, cache1, w1)"
  shows "up1 = up @ [p] \<and> (\<forall>j. cache1 j \<noteq> Some [])"
proof (cases rule: upload_one_cases [of w p fromtimestamp c u up cache])
  case vanished
  with s inv show ?thesis by simp
next
  case (no_day e)
  with ok(2) show ?thesis by simp
next
  case (no_folder j node cache2 w2)
  from no_folder(2) ok(2) have jk: "j = k" by simp
  have False
  proof (cases rule: ensure_cases [of cache k c u w])
    case (hit h)
    with no_folder(3,4) inv jk show False by auto
  next
    case (raised e r')
    with R1 show False by (metis Pair_inject sum.distinct(1))
  next
    case (no_handle d r')
    with R1 show False by (metis Pair_inject sum.inject(2) option.distinct(1) option.inject)
  next
    case (created d r' h)
    with no_folder(3,4) jk show False by auto
  qed
  then show ?thesis ..
next
  case (upload_failed j h cache2 w2 e r')
  with R2 show ?thesis by (metis Pair_inject sum.distinct(1))
next
  case (unlink_failed j h cache2 w2 x r' e)
  from ensure_frame [OF unlink_failed(3)] have "disk w2 = disk w" by blast
  with unlink_succeeds [OF unlink_failed(1) ok(1)] unlink_failed(6) show ?thesis by simp
next
  case (uploaded j h cache2 w2 x r' fs')
  from uploaded(2) ok(2) have jk: "j = k" by simp
  have "\<forall>i. cache2 i \<noteq> Some []"
  proof (cases rule: ensure_cases [of cache k c u w])
    case (hit h')
    with uploaded(3) jk inv show ?thesis by simp
  next
    case (raised e r')
    with uploaded(3) jk inv show ?thesis by simp
  next
    case (no_handle d r')
    with uploaded(3) jk inv show ?thesis by simp
  next
    case (created d r' h')
    with uploaded(3) jk inv show ?thesis by (auto split: if_splits)
  qed
  with s uploaded(7) show ?thesis by simp
qed


lemma upload_loop_all_ok:
  fixes w :: "'r world"
  assumes R2: "\<forall>p h r. \<exists>x r'. upload c p h r = (Inr x, r')"
    and inv: "\<forall>j. cache j \<noteq> Some []"
    and G: "\<forall>p\<in>set ps. exists (disk w) p \<longrightarrow> \<not> is_read_only (disk w) p
              \<and> (\<exists>k. get_day_folder_name_for_path fromtimestamp (disk w) p = Inr k
                   \<and> (\<forall>r. \<exists>d r' h. create_folder c (u @ ''/'' @ k) r = (Inr d, r')
                          \<and> d k = Some h \<and> h \<noteq> []))"
    and s: "upload_loop fromtimestamp c u ps (up, cache, w) = (up', cache', w')"
  shows "up' = up @ ps \<and> (\<forall>p\<in>set ps. \<not> exists (disk w') p)"
  using inv G s
proof (induction ps arbitrary: up cache w)
  case Nil
  then show ?case by simp
next
  case (Cons p ps)
  obtain up1 cache1 w1 where s1: "upload_one fromtimestamp c u p (up, cache, w) = (up1, cache1, w1)"
    by (cases "upload_one fromtimestamp c u p (up, cache, w)")
  from Cons.prems(3) s1 have rest: "upload_loop fromtimestamp c u ps (up1, cache1, w1) = (up', cache', w')"
    by simp
  from upload_one_step [OF s1] obtain l1 n1 where
    m1: "\<forall>q. map_of (disk w1) q = (if q \<in> set n1 then None else map_of (disk w) q)"
    and e1: "p \<in> set n1 \<longleftrightarrow> \<not> exists (disk w1) p"
    and u1: "up1 = up @ n1"
    by (elim exE conjE) (rule that; assumption)
  have a: "up1 = up @ [p] \<and> (\<forall>j. cache1 j \<noteq> Some [])"
  proof (cases "exists (disk w) p")
    case False
    then show ?thesis
      using s1 Cons.prems(1) by (simp add: upload_one_def)
  next
    case True
    with Cons.prems(2) obtain k where
      k: "\<not> is_read_only (disk w) p" "get_day_folder_name_for_path fromtimestamp (disk w) p = Inr k"
      "\<forall>r. \<exists>d r' h. create_folder c (u @ ''/'' @ k) r = (Inr d, r') \<and> d k = Some h \<and> h \<noteq> []"
      by auto
    from R2 have "\<forall>h r. \<exists>x r'. upload c p h r = (Inr x, r')" by blast
    from upload_one_all_ok [OF k(3) this Cons.prems(1) k(1,2) s1] show ?thesis .
  qed
  with u1 have n1: "n1 = [p]" by simp
  with e1 have gone: "\<not> exists (disk w1) p" by simp
  have same: "map_of (disk w1) q = map_of (disk w) q" if "q \<noteq> p" for q
    using m1 n1 that by simp
  have G1: "\<forall>q\<in>set ps. exists (disk w1) q \<longrightarrow> \<not> is_read_only (disk w1) q
              \<and> (\<exists>k. get_day_folder_name_for_path fromtimestamp (disk w1) q = Inr k
                   \<and> (\<forall>r. \<exists>d r' h. create_folder c (u @ ''/'' @ k) r = (Inr d, r')
                          \<and> d k = Some h \<and> h \<noteq> []))"
  proof (intro ballI impI)
    fix q assume q: "q \<in> set ps" and x: "exists (disk w1) q"
    with gone have neq: "q \<noteq> p" by auto
    from same [OF neq] x have "exists (disk w) q" by (simp add: exists_def)
    with Cons.prems(2) q have "\<not> is_read_only (disk w) q
              \<and> (\<exists>k. get_day_folder_name_for_path fromtimestamp (disk w) q = Inr k
                   \<and> (\<forall>r. \<exists>d r' h. create_folder c (u @ ''/'' @ k) r = (Inr d, r')
                          \<and> d k = Some h \<and> h \<noteq> []))"
      by simp
    then show "\<not> is_read_only (disk w1) q
              \<and> (\<exists>k. get_day_folder_name_for_path fromtimestamp (disk w1) q = Inr k
                   \<and> (\<forall>r. \<exists>d r' h. create_folder c (u @ ''/'' @ k) r = (Inr d, r')
                          \<and> d k = Some h \<and> h \<noteq> []))"
      unfolding is_read_only_cong [OF same [OF neq]] get_day_stat_cong [OF same [OF neq]] .
  qed
  from a have inv1: "\<forall>j. cache1 j \<noteq> Some []" by simp
  from Cons.IH [OF inv1 G1 rest] have b: "up' = up1 @ ps" "\<forall>q\<in>set ps. \<not> exists (disk w') q"
    by simp_all
  from upload_loop_effect [OF rest] obtain n2 where
    m2: "\<forall>q. map_of (disk w') q = (if q \<in> set n2 then None else map_of (disk w1) q)"
    by (elim exE conjE) (rule that; assumption)
  from m2 gone have "\<not> exists (disk w') p" by (simp add: exists_def)
  with a b show ?case by simp
qed

subsection \<open>The scenario of a mixed batch\<close>

lemma shot_days:
  "get_day_folder_name_for_path fromtimestamp fs shot1 = Inr ''21-11-2025''"
  "get_day_folder_name_for_path fromtimestamp fs shot2 = Inr ''21-11-2025''"
  "get_day_folder_name_for_path fromtimestamp fs shot3 = Inr ''22-11-2025''"
  "get_day_folder_name_for_path fromtimestamp fs shot4 = Inr ''21-11-2025''"
  "get_day_folder_name_for_path fromtimestamp fs shot5 = Inr ''21-11-2025''"
proof -
  have v: "valid_date 2025 11 21" "valid_date 2025 11 22"
    by (simp_all add: valid_date_def days_in_month_def)
  have s: "split (CHR ''_'') (stem shot1) = [''screenshot'', pad4 2025 @ pad2 11 @ pad2 21, ''220005'']"
    "split (CHR ''_'') (stem shot2) = [''screenshot'', pad4 2025 @ pad2 11 @ pad2 21, ''220015'']"
    "split (CHR ''_'') (stem shot3) = [''screenshot'', pad4 2025 @ pad2 11 @ pad2 22, ''000005'']"
    "split (CHR ''_'') (stem shot4) = [''screenshot'', pad4 2025 @ pad2 11 @ pad2 21, ''220025'']"
    "split (CHR ''_'') (stem shot5) = [''screenshot'', pad4 2025 @ pad2 11 @ pad2 21, ''220035'']"
    by (simp_all add: shot1_def shot2_def shot3_def shot4_def shot5_def stem_def name_def
          pad4_def pad2_def digit_char_def)
  have k: "pad2 21 @ ''-'' @ pad2 11 @ ''-'' @ pad4 2025 = ''21-11-2025''"
    "pad2 22 @ ''-'' @ pad2 11 @ ''-'' @ pad4 2025 = ''22-11-2025''"
    by (simp_all add: pad4_def pad2_def digit_char_def)
  show "get_day_folder_name_for_path fromtimestamp fs shot1 = Inr ''21-11-2025''"
    using second_field_date [of shot1 2025 11 21 fromtimestamp fs] v unfolding s k by simp
  show "get_day_folder_name_for_path fromtimestamp fs shot2 = Inr ''21-11-2025''"
    using second_field_date [of shot2 2025 11 21 fromtimestamp fs] v unfolding s k by simp
  show "get_day_folder_name_for_path fromtimestamp fs shot3 = Inr ''22-11-2025''"
    using second_field_date [of shot3 2025 11 22 fromtimestamp fs] v unfolding s k by simp
  show "get_day_folder_name_for_path fromtimestamp fs shot4 = Inr ''21-11-2025''"
    using second_field_date [of shot4 2025 11 21 fromtimestamp fs] v unfolding s k by simp
  show "get_day_folder_name_for_path fromtimestamp fs shot5 = Inr ''21-11-2025''"
    using second_field_date [of shot5 2025 11 21 fromtimestamp fs] v unfolding s k by simp
qed

lemma shot_neq:
  "shot1 \<noteq> shot2" "shot1 \<noteq> shot3" "shot1 \<noteq> shot4" "shot1 \<noteq> shot5"
  "shot2 \<noteq> shot1" "shot2 \<noteq> shot3" "shot2 \<noteq> shot4" "shot2 \<noteq> shot5"
  "shot3 \<noteq> shot1" "shot3 \<noteq> shot2" "shot3 \<noteq> shot4" "shot3 \<noteq> shot5"
  "shot4 \<noteq> shot1" "shot4 \<noteq> shot2" "shot4 \<noteq> shot3" "shot4 \<noteq> shot5"
  "shot5 \<noteq> shot1" "shot5 \<noteq> shot2" "shot5 \<noteq> shot3" "shot5 \<noteq> shot4"
  by (simp_all add: shot1_def shot2_def shot3_def shot4_def shot5_def)

lemma mixed_batch:
  "upload_batch_to_mega fromtimestamp (Some picky_client) ''user'' Map.empty
     [shot1, shot2, shot3, shot4, shot5] four_on_disk
   = ([shot1, shot2, shot5], [''21-11-2025'' \<mapsto> ''#21''],
      \<lparr>disk = [(shot3, png), (shot4, png)], remote = [shot1, shot5],
       logs = [EnsuringFolderExists ''user/21-11-2025'',
               UsingFolder ''user'' ''21-11-2025'' ''#21'',
               Uploading shot1 ''user'' ''21-11-2025'', UploadedDeletingLocal shot1,
               NoLongerExistsLocally shot2,
               EnsuringFolderExists ''user/22-11-2025'', NoNodeIdReturned ''user/22-11-2025'',
               SkippingUpload shot3,
               Uploading shot4 ''user'' ''21-11-2025'', ErrorUploading shot4 RemoteError,
               Uploading shot5 ''user'' ''21-11-2025'', UploadedDeletingLocal shot5]\<rparr>)"
  by (simp add: upload_batch_to_mega_def upload_one_def shot_days shot_neq four_on_disk_def
        exists_def unlink_def png_def ensure_mega_day_folder_def picky_client_def logging_def
        Let_def)

subsection \<open>The upload call and the result of the batch\<close>

lemma upload_loop_append:
  "upload_loop fromtimestamp c u (xs @ ys) st
   = upload_loop fromtimestamp c u ys (upload_loop fromtimestamp c u xs st)"
  by (induction xs arbitrary: st) simp_all

lemma upload_loop_nth:
  assumes "i < length ps"
  shows "upload_loop fromtimestamp c u ps st
   = upload_loop fromtimestamp c u (drop (Suc i) ps)
       (upload_one fromtimestamp c u (ps ! i) (upload_loop fromtimestamp c u (take i ps) st))"
proof -
  have "ps = take i ps @ (ps ! i) # drop (Suc i) ps"
    using assms by (rule id_take_nth_drop)
  then have "upload_loop fromtimestamp c u ps st
     = upload_loop fromtimestamp c u (take i ps @ (ps ! i) # drop (Suc i) ps) st"
    by simp
  then show ?thesis
    by (simp only: upload_loop_append upload_loop.simps)
qed

lemma upload_succeeded_iff:
  "upload_succeeded fromtimestamp c u cache pending w p
   \<longleftrightarrow> (\<exists>i<length pending. pending ! i = p
          \<and> upload_returns fromtimestamp c u p
               (upload_loop fromtimestamp c u (take i pending) ([], cache, w)))"
  by (auto simp: upload_succeeded_def loop_state_def list_ex_iff)

text \<open>What the loop body adds to the list for a path, in terms of what the remote calls return.\<close>

lemma upload_one_contribution:
  fixes w :: "'r world"
  shows "fst (upload_one fromtimestamp c u p (up, cache, w))
     = up @ (if \<not> exists (disk w) p
               \<or> (upload_returns fromtimestamp c u p (up, cache, w) \<and> \<not> is_read_only (disk w) p)
             then [p] else [])"
    and "exists (disk w) p \<and> \<not> upload_returns fromtimestamp c u p (up, cache, w)
      \<longrightarrow> disk (snd (snd (upload_one fromtimestamp c u p (up, cache, w)))) = disk w"
proof -
  have "fst (upload_one fromtimestamp c u p (up, cache, w))
     = up @ (if \<not> exists (disk w) p
               \<or> (upload_returns fromtimestamp c u p (up, cache, w) \<and> \<not> is_read_only (disk w) p)
             then [p] else [])
    \<and> (exists (disk w) p \<and> \<not> upload_returns fromtimestamp c u p (up, cache, w)
      \<longrightarrow> disk (snd (snd (upload_one fromtimestamp c u p (up, cache, w)))) = disk w)"
  proof (cases rule: upload_one_cases [of w p fromtimestamp c u up cache])
    case vanished
    then show ?thesis by simp
  next
    case (no_day e)
    then show ?thesis by (simp add: upload_returns_def logging_def)
  next
    case (no_folder k node cache1 w1)
    from ensure_frame [OF no_folder(3)] have "disk w1 = disk w" by blast
    with no_folder show ?thesis by (auto simp: upload_returns_def logging_def)
  next
    case (upload_failed k h cache1 w1 e r')
    from ensure_frame [OF upload_failed(3)] have "disk w1 = disk w" by blast
    with upload_failed show ?thesis by (simp add: upload_returns_def)
  next
    case (unlink_failed k h cache1 w1 x r' e)
    from ensure_frame [OF unlink_failed(3)] have d: "disk w1 = disk w" by blast
    from unlink_failed(1,6) have "is_read_only (disk w) p"
      unfolding d by (auto simp: unlink_def is_read_only_def exists_def split: option.splits if_splits)
    with unlink_failed show ?thesis by (simp add: upload_returns_def)
  next
    case (uploaded k h cache1 w1 x r' fs')
    from ensure_frame [OF uploaded(3)] have d: "disk w1 = disk w" by blast
    from uploaded(1,6) have "\<not> is_read_only (disk w) p"
      unfolding d by (auto simp: unlink_def is_read_only_def exists_def split: option.splits if_splits)
    with uploaded show ?thesis by (simp add: upload_returns_def)
  qed
  then show "fst (upload_one fromtimestamp c u p (up, cache, w))
     = up @ (if \<not> exists (disk w) p
               \<or> (upload_returns fromtimestamp c u p (up, cache, w) \<and> \<not> is_read_only (disk w) p)
             then [p] else [])"
    and "exists (disk w) p \<and> \<not> upload_returns fromtimestamp c u p (up, cache, w)
      \<longrightarrow> disk (snd (snd (upload_one fromtimestamp c u p (up, cache, w)))) = disk w"
    by blast+
qed

text \<open>The loop body removes no file but the one it has uploaded.\<close>

lemma upload_one_deletes:
  fixes w :: "'r world"
  assumes s: "upload_one fromtimestamp c u p (up, cache, w) = (up1, cache1, w1)"
    and x: "exists (disk w) q" and g: "\<not> exists (disk w1) q"
  shows "q = p \<and> upload_returns fromtimestamp c u p (up, cache, w)"
proof -
  from upload_one_step [OF s] obtain l new where
    n: "up1 = up @ new" "set new \<subseteq> {p}"
    and m: "\<forall>q. map_of (disk w1) q = (if q \<in> set new then None else map_of (disk w) q)"
    by (elim exE conjE) (rule that; assumption)
  from m x g have qn: "q \<in> set new"
    by (auto simp: exists_def split: if_splits)
  with n(2) have qp: "q = p" by auto
  from upload_one_contribution(1) [of fromtimestamp c u p up cache w] s n(1)
  have "new = (if \<not> exists (disk w) p
               \<or> (upload_returns fromtimestamp c u p (up, cache, w) \<and> \<not> is_read_only (disk w) p)
             then [p] else [])"
    by simp
  with qn x qp have "upload_returns fromtimestamp c u p (up, cache, w)"
    by (auto split: if_splits)
  with qp show ?thesis by simp
qed

text \<open>A file that the loop removes is one it has uploaded, at the position where it is processed.\<close>

lemma upload_loop_deletes:
  fixes w :: "'r world"
  assumes "upload_loop fromtimestamp c u ps (up, cache, w) = (up', cache', w')"
    and "exists (disk w) q" and "\<not> exists (disk w') q"
  shows "\<exists>i<length ps. ps ! i = q
           \<and> upload_returns fromtimestamp c u q
                (upload_loop fromtimestamp c u (take i ps) (up, cache, w))"
  using assms
proof (induction ps arbitrary: up cache w)
  case Nil
  then show ?case by simp
next
  case (Cons p ps)
  obtain up1 cache1 w1 where
    s1: "upload_one fromtimestamp c u p (up, cache, w) = (up1, cache1, w1)"
    by (cases "upload_one fromtimestamp c u p (up, cache, w)")
  from Cons.prems(1) s1
  have rest: "upload_loop fromtimestamp c u ps (up1, cache1, w1) = (up', cache', w')"
    by simp
  show ?case
  proof (cases "exists (disk w1) q")
    case False
    from upload_one_deletes [OF s1 Cons.prems(2) False]
    have "(p # ps) ! 0 = q
          \<and> upload_returns fromtimestamp c u q
               (upload_loop fromtimestamp c u (take 0 (p # ps)) (up, cache, w))"
      by simp
    then show ?thesis by (intro exI [of _ 0]) simp
  next
    case True
    from Cons.IH [OF rest True Cons.prems(3)] obtain i where
      i: "i < length ps" "ps ! i = q"
         "upload_returns fromtimestamp c u q
            (upload_loop fromtimestamp c u (take i ps) (up1, cache1, w1))"
      by blast
    then have "Suc i < length (p # ps) \<and> (p # ps) ! Suc i = q
          \<and> upload_returns fromtimestamp c u q
               (upload_loop fromtimestamp c u (take (Suc i) (p # ps)) (up, cache, w))"
      by (simp add: s1)
    then show ?thesis by (rule exI [of _ "Suc i"])
  qed
qed

lemma batch_deletes_uploaded:
  fixes w :: "'r world"
  assumes b: "upload_batch_to_mega fromtimestamp (Some c) u cache pending w = (uploaded, cache', w')"
    and x: "exists (disk w) p" and g: "\<not> exists (disk w') p"
  shows "upload_succeeded fromtimestamp c u cache pending w p"
proof (cases "pending = []")
  case True
  with b have "w' = w" by (simp add: upload_batch_to_mega_def)
  with x g show ?thesis by simp
next
  case False
  with b have "upload_loop fromtimestamp c u pending ([], cache, w) = (uploaded, cache', w')"
    by (simp add: upload_batch_to_mega_def)
  from upload_loop_deletes [OF this x g] show ?thesis
    unfolding upload_succeeded_iff .
qed




subsection \<open>A response of \<^verbatim>\<open>create_folder\<close> without the node id\<close>

lemma upload_one_folder_failure:
  fixes w :: "'r world"
  assumes x: "exists (disk w) p"
    and k: "get_day_folder_name_for_path fromtimestamp (disk w) p = Inr k"
    and ck: "cache k = None"
    and cf: "create_folder c (u @ ''/'' @ k) (remote w) = (Inr d, r')"
    and d: "d k = None \<or> d k = Some []"
  shows "upload_one fromtimestamp c u p (up, cache, w)
         = (up, cache,
            w\<lparr>remote := r',
              logs := logs w @ [EnsuringFolderExists (u @ ''/'' @ k),
                                NoNodeIdReturned (u @ ''/'' @ k), SkippingUpload p]\<rparr>)"
proof -
  have "ensure_mega_day_folder c u k cache w
        = (None, cache,
           w\<lparr>remote := r',
             logs := logs w @ [EnsuringFolderExists (u @ ''/'' @ k),
                               NoNodeIdReturned (u @ ''/'' @ k)]\<rparr>)"
    using ck cf d by (auto simp: ensure_mega_day_folder_def Let_def logging_def)
  with x k show ?thesis
    by (simp add: upload_one_def logging_def)
qed

text \<open>
  A path that occurs once in the batch and whose step is skipped for want of a folder is not
  in the result, and its file is as it was.
\<close>

lemma folder_failure_skips:
  fixes w :: "'r world"
  assumes i: "i < length pending" "pending ! i = p"
    and once: "p \<notin> set (take i pending)" "p \<notin> set (drop (Suc i) pending)"
    and pre: "upload_loop fromtimestamp c u (take i pending) ([], cache, w) = (up1, cache1, w1)"
    and x1: "exists (disk w1) p"
    and k1: "get_day_folder_name_for_path fromtimestamp (disk w1) p = Inr k"
    and ck: "cache1 k = None"
    and cf: "create_folder c (u @ ''/'' @ k) (remote w1) = (Inr d, r')"
    and d: "d k = None \<or> d k = Some []"
    and b: "upload_loop fromtimestamp c u pending ([], cache, w) = (uploaded, cache', w')"
  shows "p \<notin> set uploaded" and "map_of (disk w') p = map_of (disk w) p"
    and "\<not> upload_attempted p (new_logs w w')"
proof -
  from upload_loop_effect [OF pre] obtain l1 n1 where
    a1: "up1 = [] @ n1" "logs w1 = logs w @ l1" "set n1 \<subseteq> set (take i pending)"
    and m1: "\<forall>q. map_of (disk w1) q = (if q \<in> set n1 then None else map_of (disk w) q)"
    and t1: "\<forall>q. upload_attempted q l1 \<or> upload_confirmed q l1
               \<longrightarrow> q \<in> set (take i pending) \<and> exists (disk w) q"
    by (elim exE conjE) (rule that; assumption)
  from a1(3) once(1) have pn1: "p \<notin> set n1" by blast
  with m1 have mp1: "map_of (disk w1) p = map_of (disk w) p" by simp
  define w2 where "w2 = w1\<lparr>remote := r',
              logs := logs w1 @ [EnsuringFolderExists (u @ ''/'' @ k),
                                NoNodeIdReturned (u @ ''/'' @ k), SkippingUpload p]\<rparr>"
  have s: "upload_one fromtimestamp c u p (up1, cache1, w1) = (up1, cache1, w2)"
    unfolding w2_def
    using x1 k1 ck cf d
    by (rule upload_one_folder_failure [where cache = cache1 and d = d and k = k])
  have rest: "upload_loop fromtimestamp c u (drop (Suc i) pending) (up1, cache1, w2)
              = (uploaded, cache', w')"
    using upload_loop_nth [OF i(1), of fromtimestamp c u "([], cache, w)"] b
    unfolding pre i(2) s by simp
  from upload_loop_effect [OF rest] obtain l3 n3 where
    a3: "uploaded = up1 @ n3" "logs w' = logs w2 @ l3" "set n3 \<subseteq> set (drop (Suc i) pending)"
    and m3: "\<forall>q. map_of (disk w') q = (if q \<in> set n3 then None else map_of (disk w2) q)"
    and t3: "\<forall>q. upload_attempted q l3 \<or> upload_confirmed q l3
               \<longrightarrow> q \<in> set (drop (Suc i) pending) \<and> exists (disk w2) q"
    by (elim exE conjE) (rule that; assumption)
  from a3(3) once(2) have pn3: "p \<notin> set n3" by blast
  show "p \<notin> set uploaded"
    using a3(1) a1(1) pn1 pn3 by simp
  have "map_of (disk w') p = map_of (disk w2) p"
    using m3 pn3 by simp
  also have "disk w2 = disk w1" by (simp add: w2_def)
  finally show "map_of (disk w') p = map_of (disk w) p"
    using mp1 by simp
  have l: "logs w' = logs w @ (l1 @ [EnsuringFolderExists (u @ ''/'' @ k),
                                NoNodeIdReturned (u @ ''/'' @ k), SkippingUpload p] @ l3)"
    using a3(2) a1(2) by (simp add: w2_def)
  have "\<not> upload_attempted p l1" using t1 once(1) by blast
  moreover have "\<not> upload_attempted p l3" using t3 once(2) by blast
  moreover have "\<not> upload_attempted p [EnsuringFolderExists (u @ ''/'' @ k),
                                NoNodeIdReturned (u @ ''/'' @ k), SkippingUpload p]"
    by (simp add: upload_attempted_def)
  ultimately show "\<not> upload_attempted p (new_logs w w')"
    unfolding new_logs_append [OF l] by (simp add: upload_attempted_def)
qed

section \<open>Lemmas on the orchestrator\<close>

lemma upload_trigger_with_client:
  assumes "mega_client st = Some c"
    and "upload_batch_to_mega fromtimestamp (Some c) u (mega_day_cache st) (pending_screenshots st) (world st)
         = (uploaded, cache', w')"
  shows "upload_trigger fromtimestamp cfg u login_result st
    = (if enable_mega cfg \<and> upload_batch_size cfg \<le> int (length (pending_screenshots st))
       then st\<lparr>pending_screenshots := filter (\<lambda>p. p \<notin> set uploaded) (pending_screenshots st),
               mega_client := Some c, mega_day_cache := cache', world := w'\<rparr>
       else st)"
  using assms by (simp add: upload_trigger_def)

subsection \<open>What can remove a file\<close>

lemma rotate_keeps_protected:
  fixes w :: "'r world"
  assumes "p \<in> protected_paths protected"
  shows "map_of (disk (rotate_screenshots folder mx protected w)) p = map_of (disk w) p"
proof -
  let ?cands = "filter (\<lambda>p. p \<notin> protected_paths protected)
                  (sort_key (mtime_of (disk w)) (rglob_files (disk w) folder))"
  from rotate_screenshots_char [of w folder mx protected] obtain k where
    "disk (rotate_screenshots folder mx protected w) = foldl try_unlink (disk w) (take k ?cands)"
    by (elim exE conjE) (rule that; assumption)
  moreover have "p \<notin> set (take k ?cands)"
    using assms by (auto dest: in_set_takeD)
  ultimately show ?thesis
    by (simp add: map_of_try_unlink_all)
qed

lemma map_of_append_entry:
  "map_of (fs @ [(q, f)]) p
   = (case map_of fs p of Some g \<Rightarrow> Some g | None \<Rightarrow> if p = q then Some f else None)"
  by (induction fs) (auto simp del: map_of_append)

lemma map_of_replace_entry:
  "map_of (map (\<lambda>(r, g). if r = q then (r, f) else (r, g)) fs) p
   = (if p = q then (case map_of fs q of None \<Rightarrow> None | Some g \<Rightarrow> Some f) else map_of fs p)"
  by (induction fs) auto

lemma write_file_map_of:
  assumes "write_file fs q f = Inr fs'"
  shows "map_of fs' p = (if p = q then Some f else map_of fs p)"
proof (cases "map_of fs q")
  case None
  with assms have "fs' = fs @ [(q, f)]" by (simp add: write_file_def)
  with None show ?thesis
    by (simp del: map_of_append add: map_of_append_entry split: option.splits)
next
  case (Some old)
  with assms have "fs' = map (\<lambda>(r, g). if r = q then (r, f) else (r, g)) fs"
    by (simp add: write_file_def split: if_splits)
  with Some show ?thesis by (simp add: map_of_replace_entry)
qed

lemma take_screenshot_keeps:
  fixes w :: "'r world"
  assumes "exists (disk w) p"
  shows "exists (disk (take_screenshot q s w)) p"
proof (cases s)
  case (Inl e)
  with assms show ?thesis by (simp add: take_screenshot_def)
next
  case (Inr f)
  show ?thesis
  proof (cases "write_file (disk w) q f")
    case (Inl e)
    with Inr assms show ?thesis by (simp add: take_screenshot_def)
  next
    case wr: (Inr fs')
    from write_file_map_of [OF wr, of p] assms have "map_of fs' p \<noteq> None"
      by (simp add: exists_def)
    with Inr wr show ?thesis by (simp add: take_screenshot_def exists_def)
  qed
qed

text \<open>A file that a batch removes is one whose upload was confirmed in that batch.\<close>

lemma batch_deletes_confirmed:
  fixes w :: "'r world"
  assumes b: "upload_batch_to_mega fromtimestamp mc u cache pending w = (uploaded, cache', w')"
    and x: "exists (disk w) p" and g: "\<not> exists (disk w') p"
  shows "upload_confirmed p (new_logs w w')"
proof (cases "mc = None \<or> pending = []")
  case True
  with b have "w' = w" by (auto simp: upload_batch_to_mega_def split: option.splits)
  with x g show ?thesis by simp
next
  case False
  then obtain c where c: "mc = Some c" and ne: "pending \<noteq> []" by auto
  from b c ne have loop: "upload_loop fromtimestamp c u pending ([], cache, w) = (uploaded, cache', w')"
    by (simp add: upload_batch_to_mega_def)
  from upload_loop_effect [OF loop] obtain l new where
    l: "logs w' = logs w @ l"
    and m: "\<forall>q. map_of (disk w') q = (if q \<in> set new then None else map_of (disk w) q)"
    and cf: "\<forall>q\<in>set new. exists (disk w) q \<longrightarrow> upload_confirmed q l"
    by (elim exE conjE) (rule that; assumption)
  from m x g have "p \<in> set new"
    by (auto simp: exists_def split: if_splits)
  with cf x have "upload_confirmed p l" by blast
  then show ?thesis
    unfolding new_logs_append [OF l] .
qed

lemma upload_trigger_deletes_confirmed:
  fixes st :: "'r state"
  assumes x: "exists (disk (world st)) p"
    and g: "\<not> exists (disk (world (upload_trigger fromtimestamp cfg u login_result st))) p"
  shows "upload_confirmed p (new_logs (world st) (world (upload_trigger fromtimestamp cfg u login_result st)))"
proof (cases "enable_mega cfg \<and> upload_batch_size cfg \<le> int (length (pending_screenshots st))")
  case False
  then have "upload_trigger fromtimestamp cfg u login_result st = st"
    unfolding upload_trigger_def by (rule if_not_P)
  with x g show ?thesis by simp
next
  case on: True
  show ?thesis
  proof (cases "case mega_client st of None \<Rightarrow> login_result | Some c \<Rightarrow> Some c")
    case None
    with on have "world (upload_trigger fromtimestamp cfg u login_result st) = world st"
      by (simp add: upload_trigger_def)
    with x g show ?thesis by simp
  next
    case (Some c)
    obtain uploaded cache' w' where
      b: "upload_batch_to_mega fromtimestamp (Some c) u (mega_day_cache st) (pending_screenshots st) (world st)
          = (uploaded, cache', w')"
      by (cases "upload_batch_to_mega fromtimestamp (Some c) u (mega_day_cache st) (pending_screenshots st)
                   (world st)")
    with on Some have w: "world (upload_trigger fromtimestamp cfg u login_result st) = w'"
      by (simp add: upload_trigger_def)
    from batch_deletes_confirmed [OF b x] g show ?thesis
      unfolding w by simp
  qed
qed

lemma final_upload_deletes_confirmed:
  fixes st :: "'r state"
  assumes x: "exists (disk (world st)) p"
    and g: "\<not> exists (disk (world (final_upload fromtimestamp cfg u st))) p"
  shows "upload_confirmed p (new_logs (world st) (world (final_upload fromtimestamp cfg u st)))"
proof (cases "enable_mega cfg \<and> mega_client st \<noteq> None \<and> pending_screenshots st \<noteq> []")
  case False
  then have "final_upload fromtimestamp cfg u st = st"
    unfolding final_upload_def by (rule if_not_P)
  with x g show ?thesis by simp
next
  case on: True
  obtain uploaded cache' w' where
    b: "upload_batch_to_mega fromtimestamp (mega_client st) u (mega_day_cache st) (pending_screenshots st)
          (world st) = (uploaded, cache', w')"
    by (cases "upload_batch_to_mega fromtimestamp (mega_client st) u (mega_day_cache st)
                 (pending_screenshots st) (world st)")
  with on have w: "world (final_upload fromtimestamp cfg u st) = w'"
    by (simp add: final_upload_def)
  from batch_deletes_confirmed [OF b x] g show ?thesis
    unfolding w by simp
qed

subsection \<open>The scenario of ten screenshots\<close>

lemma ten_shots_days:
  "\<forall>p\<in>set ten_shots. get_day_folder_name_for_path fromtimestamp fs p = Inr ''21-11-2025''"
  by (simp add: ten_shots_def get_day_folder_name_for_path_def stem_def name_def Let_def
        strptime_20251121 strftime_def pad4_def pad2_def digit_char_def)

lemma ten_shots_distinct: "distinct ten_shots"
  by (simp add: ten_shots_def pad2_def digit_char_def)

lemma ten_pending_files:
  "map_of (disk (world ten_pending)) p = (if p \<in> set ten_shots then Some png else None)"
  by (simp add: ten_pending_def map_of_map_restrict restrict_map_def)

lemma obliging_client_ok:
  "\<forall>p h r. \<exists>x r'. upload obliging_client p h r = (Inr x, r')"
  "\<forall>r. \<exists>d r' h. create_folder obliging_client (''user'' @ ''/'' @ ''21-11-2025'') r = (Inr d, r')
         \<and> d ''21-11-2025'' = Some h \<and> h \<noteq> []"
  by (simp_all add: obliging_client_def)

subsection \<open>The scenario of one loop iteration\<close>

lemma old_shot_neq:
  "old_shot \<noteq> shot1" "old_shot \<noteq> shot2" "shot1 \<noteq> old_shot" "shot2 \<noteq> old_shot"
  by (simp_all add: old_shot_def shot1_def shot2_def)

lemma shots_under:
  "is_under [''shots''] old_shot" "is_under [''shots''] shot1" "is_under [''shots''] shot2"
  by (simp_all add: is_under_def old_shot_def shot1_def shot2_def)

lemma second_tick_path: "screenshot_path small_limit (now second_tick) = shot2"
  by (simp add: screenshot_path_def strftime_def timestamp_def pad4_def pad2_def digit_char_def
        small_limit_def second_tick_def shot2_def)

lemma second_tick_capture:
  "take_screenshot shot2 (shot second_tick) (world one_pending)
   = \<lparr>disk = [(old_shot, \<lparr>st_size = 1048576, st_mtime = 1763632800, read_only = False\<rparr>),
              (shot1, png), (shot2, png)],
      remote = [], logs = [ScreenshotSaved shot2]\<rparr>"
  by (simp add: take_screenshot_def second_tick_def one_pending_def write_file_def logging_def
        shot_neq old_shot_neq)

lemma second_tick_rotation:
  "rotate_screenshots [''shots''] 2 (Some {shot1, shot2})
     \<lparr>disk = [(old_shot, \<lparr>st_size = 1048576, st_mtime = 1763632800, read_only = False\<rparr>),
              (shot1, png), (shot2, png)],
      remote = [], logs = [ScreenshotSaved shot2]\<rparr>
   = \<lparr>disk = [(shot1, png), (shot2, png)], remote = [],
      logs = [ScreenshotSaved shot2, StartingRotation, DeletingOldScreenshot old_shot,
              RotationComplete]\<rparr>"
  by (simp add: rotate_screenshots_def get_folder_size_mb_def rglob_files_def shots_under
        size_of_def mtime_of_def png_def shot_neq old_shot_neq Let_def unlink_def logging_def)

lemma second_tick_capture_and_rotate:
  "capture_and_rotate small_limit second_tick one_pending
   = \<lparr>pending_screenshots = [shot1, shot2],
      mega_client = Some picky_client, mega_day_cache = Map.empty,
      world = \<lparr>disk = [(shot1, png), (shot2, png)], remote = [],
                logs = [ScreenshotSaved shot2, StartingRotation, DeletingOldScreenshot old_shot,
                        RotationComplete]\<rparr>\<rparr>"
proof -
  have "set ([shot1] @ [shot2]) = {shot1, shot2}" by auto
  then show ?thesis
    unfolding capture_and_rotate_def second_tick_path Let_def second_tick_capture
    by (simp add: one_pending_def small_limit_def second_tick_rotation)
qed


lemma second_tick_batch:
  "upload_batch_to_mega fromtimestamp (Some picky_client) ''user'' Map.empty [shot1, shot2]
     \<lparr>disk = [(shot1, png), (shot2, png)], remote = [],
      logs = [ScreenshotSaved shot2, StartingRotation, DeletingOldScreenshot old_shot,
              RotationComplete]\<rparr>
   = ([shot1, shot2], [''21-11-2025'' \<mapsto> ''#21''],
      \<lparr>disk = [], remote = [shot1, shot2],
       logs = [ScreenshotSaved shot2, StartingRotation, DeletingOldScreenshot old_shot,
               RotationComplete,
               EnsuringFolderExists ''user/21-11-2025'',
               UsingFolder ''user'' ''21-11-2025'' ''#21'',
               Uploading shot1 ''user'' ''21-11-2025'', UploadedDeletingLocal shot1,
               Uploading shot2 ''user'' ''21-11-2025'', UploadedDeletingLocal shot2]\<rparr>)"
  by (simp add: upload_batch_to_mega_def upload_one_def shot_days shot_neq
        exists_def unlink_def png_def ensure_mega_day_folder_def picky_client_def logging_def
        Let_def)

lemma second_tick_iteration:
  "loop_iteration fromtimestamp small_limit ''user'' second_tick one_pending
   = \<lparr>pending_screenshots = [],
      mega_client = Some picky_client, mega_day_cache = [''21-11-2025'' \<mapsto> ''#21''],
      world = \<lparr>disk = [], remote = [shot1, shot2],
       logs = [ScreenshotSaved shot2, StartingRotation, DeletingOldScreenshot old_shot,
               RotationComplete,
               EnsuringFolderExists ''user/21-11-2025'',
               UsingFolder ''user'' ''21-11-2025'' ''#21'',
               Uploading shot1 ''user'' ''21-11-2025'', UploadedDeletingLocal shot1,
               Uploading shot2 ''user'' ''21-11-2025'', UploadedDeletingLocal shot2]\<rparr>\<rparr>"
  unfolding loop_iteration_def second_tick_capture_and_rotate
  by (simp add: upload_trigger_def small_limit_def second_tick_batch)

subsection \<open>The scenarios of the remote service that fails once\<close>


lemma moody_batch:
  "upload_batch_to_mega fromtimestamp (Some moody_client) ''user'' Map.empty [shot1, shot5]
     \<lparr>disk = [(shot1, png), (shot5, png)], remote = 0, logs = []\<rparr>
   = ([shot5], [''21-11-2025'' \<mapsto> ''#21''],
      \<lparr>disk = [(shot1, png)], remote = Suc (Suc 0),
       logs = [EnsuringFolderExists ''user/21-11-2025'', NoNodeIdReturned ''user/21-11-2025'',
               SkippingUpload shot1,
               EnsuringFolderExists ''user/21-11-2025'',
               UsingFolder ''user'' ''21-11-2025'' ''#21'',
               Uploading shot5 ''user'' ''21-11-2025'', UploadedDeletingLocal shot5]\<rparr>)"
  by (simp add: upload_batch_to_mega_def upload_one_def shot_days shot_neq
        exists_def unlink_def png_def ensure_mega_day_folder_def moody_client_def logging_def
        Let_def)

lemma twice_batch:
  "upload_batch_to_mega fromtimestamp (Some moody_client) ''user'' Map.empty [shot1, shot1]
     \<lparr>disk = [(shot1, png)], remote = 0, logs = []\<rparr>
   = ([shot1], [''21-11-2025'' \<mapsto> ''#21''],
      \<lparr>disk = [], remote = Suc (Suc 0),
       logs = [EnsuringFolderExists ''user/21-11-2025'', NoNodeIdReturned ''user/21-11-2025'',
               SkippingUpload shot1,
               EnsuringFolderExists ''user/21-11-2025'',
               UsingFolder ''user'' ''21-11-2025'' ''#21'',
               Uploading shot1 ''user'' ''21-11-2025'', UploadedDeletingLocal shot1]\<rparr>)"
  by (simp add: upload_batch_to_mega_def upload_one_def shot_days shot_neq
        exists_def unlink_def png_def ensure_mega_day_folder_def moody_client_def logging_def
        Let_def)

lemma moody_trigger:
  "upload_trigger fromtimestamp small_limit ''user'' login_result moody_pending
   = moody_pending
       \<lparr>pending_screenshots := [shot1],
        mega_client := Some moody_client,
        mega_day_cache := [''21-11-2025'' \<mapsto> ''#21''],
        world := snd (snd (upload_batch_to_mega fromtimestamp (Some moody_client) ''user''
                             Map.empty [shot1, shot5]
                             \<lparr>disk = [(shot1, png), (shot5, png)], remote = 0, logs = []\<rparr>))\<rparr>"
proof -
  have c: "mega_client moody_pending = Some moody_client"
    by (simp add: moody_pending_def)
  have b: "upload_batch_to_mega fromtimestamp (Some moody_client) ''user''
             (mega_day_cache moody_pending) (pending_screenshots moody_pending)
             (world moody_pending)
           = ([shot5], [''21-11-2025'' \<mapsto> ''#21''],
              snd (snd (upload_batch_to_mega fromtimestamp (Some moody_client) ''user''
                             Map.empty [shot1, shot5]
                             \<lparr>disk = [(shot1, png), (shot5, png)], remote = 0, logs = []\<rparr>)))"
    unfolding moody_batch by (simp add: moody_pending_def moody_batch)
  show ?thesis
    unfolding upload_trigger_with_client [OF c b]
    by (simp add: small_limit_def) (simp add: moody_pending_def shot_neq)
qed

lemma twice_trigger:
  "upload_trigger fromtimestamp small_limit ''user'' login_result twice_pending
   = twice_pending
       \<lparr>pending_screenshots := [],
        mega_client := Some moody_client,
        mega_day_cache := [''21-11-2025'' \<mapsto> ''#21''],
        world := snd (snd (upload_batch_to_mega fromtimestamp (Some moody_client) ''user''
                             Map.empty [shot1, shot1]
                             \<lparr>disk = [(shot1, png)], remote = 0, logs = []\<rparr>))\<rparr>"
proof -
  have c: "mega_client twice_pending = Some moody_client"
    by (simp add: twice_pending_def)
  have b: "upload_batch_to_mega fromtimestamp (Some moody_client) ''user''
             (mega_day_cache twice_pending) (pending_screenshots twice_pending)
             (world twice_pending)
           = ([shot1], [''21-11-2025'' \<mapsto> ''#21''],
              snd (snd (upload_batch_to_mega fromtimestamp (Some moody_client) ''user''
                             Map.empty [shot1, shot1]
                             \<lparr>disk = [(shot1, png)], remote = 0, logs = []\<rparr>)))"
    unfolding twice_batch by (simp add: twice_pending_def twice_batch)
  show ?thesis
    unfolding upload_trigger_with_client [OF c b]
    by (simp add: small_limit_def) (simp add: twice_pending_def)
qed

subsection \<open>What the upload trigger can remove\<close>

lemma upload_succeeded_pending:
  "upload_succeeded fromtimestamp c u cache pending w p \<Longrightarrow> p \<in> set pending"
  by (auto simp: upload_succeeded_iff)

lemma upload_trigger_deletes_uploaded:
  fixes st :: "'r state"
  assumes x: "exists (disk (world st)) p"
    and g: "\<not> exists (disk (world (upload_trigger fromtimestamp cfg u login_result st))) p"
  shows "p \<in> set (pending_screenshots st)
    \<and> (\<exists>c. (case mega_client st of None \<Rightarrow> login_result | Some c' \<Rightarrow> Some c') = Some c
          \<and> upload_succeeded fromtimestamp c u (mega_day_cache st) (pending_screenshots st)
              (world st) p)"
proof (cases "enable_mega cfg \<and> upload_batch_size cfg \<le> int (length (pending_screenshots st))")
  case False
  then have "upload_trigger fromtimestamp cfg u login_result st = st"
    unfolding upload_trigger_def by (rule if_not_P)
  with x g show ?thesis by simp
next
  case on: True
  show ?thesis
  proof (cases "case mega_client st of None \<Rightarrow> login_result | Some c \<Rightarrow> Some c")
    case None
    with on have "world (upload_trigger fromtimestamp cfg u login_result st) = world st"
      by (simp add: upload_trigger_def)
    with x g show ?thesis by simp
  next
    case (Some c)
    obtain uploaded cache' w' where
      b: "upload_batch_to_mega fromtimestamp (Some c) u (mega_day_cache st)
            (pending_screenshots st) (world st) = (uploaded, cache', w')"
      by (cases "upload_batch_to_mega fromtimestamp (Some c) u (mega_day_cache st)
                   (pending_screenshots st) (world st)")
    with on Some have w: "world (upload_trigger fromtimestamp cfg u login_result st) = w'"
      by (simp add: upload_trigger_def)
    from g have g': "\<not> exists (disk w') p" unfolding w .
    note s = batch_deletes_uploaded [OF b x g']
    from upload_succeeded_pending [OF s] s Some show ?thesis by blast
  qed
qed

lemma final_upload_deletes_uploaded:
  fixes st :: "'r state"
  assumes x: "exists (disk (world st)) p"
    and g: "\<not> exists (disk (world (final_upload fromtimestamp cfg u st))) p"
  shows "p \<in> set (pending_screenshots st)
    \<and> (\<exists>c. mega_client st = Some c
          \<and> upload_succeeded fromtimestamp c u (mega_day_cache st) (pending_screenshots st)
              (world st) p)"
proof (cases "enable_mega cfg \<and> mega_client st \<noteq> None \<and> pending_screenshots st \<noteq> []")
  case False
  then have "final_upload fromtimestamp cfg u st = st"
    unfolding final_upload_def by (rule if_not_P)
  with x g show ?thesis by simp
next
  case on: True
  then obtain c where c: "mega_client st = Some c" by auto
  obtain uploaded cache' w' where
    b: "upload_batch_to_mega fromtimestamp (Some c) u (mega_day_cache st)
          (pending_screenshots st) (world st) = (uploaded, cache', w')"
    by (cases "upload_batch_to_mega fromtimestamp (Some c) u (mega_day_cache st)
                 (pending_screenshots st) (world st)")
  with on c have w: "world (final_upload fromtimestamp cfg u st) = w'"
    by (simp add: final_upload_def)
  from g have g': "\<not> exists (disk w') p" unfolding w .
  note s = batch_deletes_uploaded [OF b x g']
  from upload_succeeded_pending [OF s] s c show ?thesis by blast
qed

lemma five_pending_final:
  "final_upload fromtimestamp batch_of_ten ''user'' five_pending
   = five_pending
       \<lparr>pending_screenshots := [shot3, shot4],
        mega_day_cache := [''21-11-2025'' \<mapsto> ''#21''],
        world := snd (snd (upload_batch_to_mega fromtimestamp (Some picky_client) ''user'' Map.empty
                             [shot1, shot2, shot3, shot4, shot5] four_on_disk))\<rparr>"
  unfolding final_upload_def
  by (simp add: batch_of_ten_def five_pending_def mixed_batch shot_neq)

section \<open>Upload batcher: claims\<close>



text \<open>
  Claim C7 says that an artifact whose folder could not be created is skipped for the batch
  and stays in the Pending Set.  The batcher skips the entry of the list at which the response
  came without a node id, and goes on; a later entry of the same batch asks for the folder
  again.  When the same path is in the list twice (two captures within one second write the
  same file and append the same path) and the remote service answers the first
  \<^verbatim>\<open>create_folder\<close> without a node id and the second with one, the first entry is skipped and
  the second is uploaded and deleted: the path is returned and leaves the pending list in the
  batch in which its folder creation failed.
\<close>

theorem duplicate_path_counterexample:
  "pending_screenshots twice_pending = [shot1, shot1]
   \<and> get_day_folder_name_for_path raising_fromtimestamp (disk (world twice_pending)) shot1
      = Inr ''21-11-2025''
   \<and> create_folder moody_client (''user'' @ ''/'' @ ''21-11-2025'') (remote (world twice_pending))
      = (Inr Map.empty, Suc 0)
   \<and> fst (ensure_mega_day_folder moody_client ''user'' ''21-11-2025'' Map.empty
             (world twice_pending)) = None
   \<and> upload_batch_to_mega raising_fromtimestamp (Some moody_client) ''user'' Map.empty
        [shot1, shot1] (world twice_pending)
      = ([shot1], [''21-11-2025'' \<mapsto> ''#21''],
         \<lparr>disk = [], remote = Suc (Suc 0),
          logs = [EnsuringFolderExists ''user/21-11-2025'', NoNodeIdReturned ''user/21-11-2025'',
                  SkippingUpload shot1,
                  EnsuringFolderExists ''user/21-11-2025'',
                  UsingFolder ''user'' ''21-11-2025'' ''#21'',
                  Uploading shot1 ''user'' ''21-11-2025'', UploadedDeletingLocal shot1]\<rparr>)
   \<and> pending_screenshots (upload_trigger raising_fromtimestamp small_limit ''user'' None
        twice_pending) = []"
proof -
  have w: "world twice_pending = \<lparr>disk = [(shot1, png)], remote = 0, logs = []\<rparr>"
    by (simp add: twice_pending_def)
  have 1: "pending_screenshots twice_pending = [shot1, shot1]"
    by (simp add: twice_pending_def)
  have 2: "get_day_folder_name_for_path raising_fromtimestamp (disk (world twice_pending)) shot1
           = Inr ''21-11-2025''"
    by (rule shot_days)
  have 3: "create_folder moody_client (''user'' @ ''/'' @ ''21-11-2025'')
             (remote (world twice_pending)) = (Inr Map.empty, Suc 0)"
    by (simp add: moody_client_def w)
  have 4: "fst (ensure_mega_day_folder moody_client ''user'' ''21-11-2025'' Map.empty
                  (world twice_pending)) = None"
    by (simp add: ensure_mega_day_folder_def moody_client_def w logging_def Let_def)
  note 5 = twice_batch [of raising_fromtimestamp, folded w]
  have 6: "pending_screenshots (upload_trigger raising_fromtimestamp small_limit ''user'' None
             twice_pending) = []"
    unfolding twice_trigger by simp
  show ?thesis
    by (intro conjI 1 2 3 4 5 6)
qed

text \<open>
  Claim C7, amended.  When the cache has no entry for the day key and the response of
  \<^verbatim>\<open>create_folder\<close> has no node id for it (or an empty one), \<^verbatim>\<open>ensure_mega_day_folder\<close>
  returns \<open>None\<close> and the cache is the one it was given.  When that is the response received
  at an entry of the batch whose file is on disk, the batcher skips the entry: the list of
  uploaded paths and the cache are as they were, no file is touched, \<^verbatim>\<open>mega_client.upload\<close>
  is not called (the remote state is the one \<^verbatim>\<open>create_folder\<close> left), and the loop goes on.
  An artifact whose path is at that entry only is then not returned by the batch, whatever
  the remote service answers at the other entries: the upload trigger leaves it in the pending
  list with its file on disk, and no upload of it is started; the next batch processes it
  again.
\<close>

theorem folder_failure_keeps_pending:
  fixes w :: "'r world" and st :: "'r state" and w1 :: "'r world"
  shows "(cache k = None \<and> create_folder c (u @ ''/'' @ k) (remote w) = (Inr d, r')
          \<and> (d k = None \<or> d k = Some [])
        \<longrightarrow> fst (ensure_mega_day_folder c u k cache w) = None
            \<and> fst (snd (ensure_mega_day_folder c u k cache w)) = cache)
    \<and> (exists (disk w) p \<and> get_day_folder_name_for_path fromtimestamp (disk w) p = Inr k
        \<and> cache k = None \<and> create_folder c (u @ ''/'' @ k) (remote w) = (Inr d, r')
        \<and> (d k = None \<or> d k = Some [])
        \<longrightarrow> upload_one fromtimestamp c u p (up, cache, w)
            = (up, cache,
               w\<lparr>remote := r',
                 logs := logs w @ [EnsuringFolderExists (u @ ''/'' @ k),
                                   NoNodeIdReturned (u @ ''/'' @ k), SkippingUpload p]\<rparr>))
    \<and> (mega_client st = Some c
        \<and> i < length (pending_screenshots st) \<and> pending_screenshots st ! i = p
        \<and> p \<notin> set (take i (pending_screenshots st))
        \<and> p \<notin> set (drop (Suc i) (pending_screenshots st))
        \<and> loop_state fromtimestamp c u (mega_day_cache st) (pending_screenshots st) (world st) i
            = (up1, cache1, w1)
        \<and> exists (disk w1) p \<and> get_day_folder_name_for_path fromtimestamp (disk w1) p = Inr k
        \<and> cache1 k = None \<and> create_folder c (u @ ''/'' @ k) (remote w1) = (Inr d, r')
        \<and> (d k = None \<or> d k = Some [])
        \<longrightarrow> p \<notin> set (fst (upload_batch_to_mega fromtimestamp (Some c) u (mega_day_cache st)
                            (pending_screenshots st) (world st)))
            \<and> p \<in> set (pending_screenshots (upload_trigger fromtimestamp cfg u login_result st))
            \<and> stat (disk (world (upload_trigger fromtimestamp cfg u login_result st))) p
                = stat (disk (world st)) p
            \<and> \<not> upload_attempted p
                  (new_logs (world st) (world (upload_trigger fromtimestamp cfg u login_result st))))"
proof (intro conjI impI)
  assume a: "cache k = None \<and> create_folder c (u @ ''/'' @ k) (remote w) = (Inr d, r')
          \<and> (d k = None \<or> d k = Some [])"
  then show "fst (ensure_mega_day_folder c u k cache w) = None"
    by (auto simp: ensure_mega_day_folder_def Let_def)
  from a show "fst (snd (ensure_mega_day_folder c u k cache w)) = cache"
    by (auto simp: ensure_mega_day_folder_def Let_def)
next
  assume "exists (disk w) p \<and> get_day_folder_name_for_path fromtimestamp (disk w) p = Inr k
        \<and> cache k = None \<and> create_folder c (u @ ''/'' @ k) (remote w) = (Inr d, r')
        \<and> (d k = None \<or> d k = Some [])"
  then show "upload_one fromtimestamp c u p (up, cache, w)
            = (up, cache,
               w\<lparr>remote := r',
                 logs := logs w @ [EnsuringFolderExists (u @ ''/'' @ k),
                                   NoNodeIdReturned (u @ ''/'' @ k), SkippingUpload p]\<rparr>)"
    by (intro upload_one_folder_failure [where d = d]) simp_all
next
  assume a: "mega_client st = Some c
        \<and> i < length (pending_screenshots st) \<and> pending_screenshots st ! i = p
        \<and> p \<notin> set (take i (pending_screenshots st))
        \<and> p \<notin> set (drop (Suc i) (pending_screenshots st))
        \<and> loop_state fromtimestamp c u (mega_day_cache st) (pending_screenshots st) (world st) i
            = (up1, cache1, w1)
        \<and> exists (disk w1) p \<and> get_day_folder_name_for_path fromtimestamp (disk w1) p = Inr k
        \<and> cache1 k = None \<and> create_folder c (u @ ''/'' @ k) (remote w1) = (Inr d, r')
        \<and> (d k = None \<or> d k = Some [])"
  then have c: "mega_client st = Some c"
    and i: "i < length (pending_screenshots st)" "pending_screenshots st ! i = p"
    and once: "p \<notin> set (take i (pending_screenshots st))"
      "p \<notin> set (drop (Suc i) (pending_screenshots st))"
    and pre: "upload_loop fromtimestamp c u (take i (pending_screenshots st))
                ([], mega_day_cache st, world st) = (up1, cache1, w1)"
    and x1: "exists (disk w1) p"
    and k1: "get_day_folder_name_for_path fromtimestamp (disk w1) p = Inr k"
    and ck: "cache1 k = None"
    and cf: "create_folder c (u @ ''/'' @ k) (remote w1) = (Inr d, r')"
    and d: "d k = None \<or> d k = Some []"
    unfolding loop_state_def by blast+
  obtain uploaded cache' w' where
    b: "upload_batch_to_mega fromtimestamp (Some c) u (mega_day_cache st) (pending_screenshots st)
          (world st) = (uploaded, cache', w')"
    by (cases "upload_batch_to_mega fromtimestamp (Some c) u (mega_day_cache st)
                 (pending_screenshots st) (world st)")
  have loop: "upload_loop fromtimestamp c u (pending_screenshots st)
                ([], mega_day_cache st, world st) = (uploaded, cache', w')"
    using b by (cases "pending_screenshots st") (simp_all add: upload_batch_to_mega_def)
  note r = folder_failure_skips [OF i once pre x1 k1 ck cf d loop]
  from i have p: "p \<in> set (pending_screenshots st)"
    by (auto simp: in_set_conv_nth)
  show "p \<notin> set (fst (upload_batch_to_mega fromtimestamp (Some c) u (mega_day_cache st)
                            (pending_screenshots st) (world st)))"
    unfolding b using r(1) by simp
  consider (fired) "upload_trigger fromtimestamp cfg u login_result st
      = st\<lparr>pending_screenshots := filter (\<lambda>p. p \<notin> set uploaded) (pending_screenshots st),
           mega_client := Some c, mega_day_cache := cache', world := w'\<rparr>"
    | (idle) "upload_trigger fromtimestamp cfg u login_result st = st"
    unfolding upload_trigger_with_client [OF c b, of cfg login_result]
    by (cases "enable_mega cfg \<and> upload_batch_size cfg \<le> int (length (pending_screenshots st))")
       simp_all
  then have "p \<in> set (pending_screenshots (upload_trigger fromtimestamp cfg u login_result st))
            \<and> stat (disk (world (upload_trigger fromtimestamp cfg u login_result st))) p
                = stat (disk (world st)) p
            \<and> \<not> upload_attempted p
                  (new_logs (world st) (world (upload_trigger fromtimestamp cfg u login_result st)))"
  proof cases
    case fired
    show ?thesis
      unfolding fired using p r by (simp add: stat_def)
  next
    case idle
    show ?thesis
      unfolding idle using p by simp
  qed
  then show "p \<in> set (pending_screenshots (upload_trigger fromtimestamp cfg u login_result st))"
    and "stat (disk (world (upload_trigger fromtimestamp cfg u login_result st))) p
                = stat (disk (world st)) p"
    and "\<not> upload_attempted p
                  (new_logs (world st) (world (upload_trigger fromtimestamp cfg u login_result st)))"
    by blast+
qed

text \<open>
  The remote service that fails once, with two screenshots of the same day pending: the
  response for the first has no node id, the first stays pending with its file, the second
  is uploaded with the node id of the second response, which is in the cache for the next
  batch.
\<close>

theorem folder_failure_keeps_pending_witness:
  "create_folder moody_client (''user'' @ ''/'' @ ''21-11-2025'') (remote (world moody_pending))
     = (Inr Map.empty, Suc 0)
   \<and> fst (ensure_mega_day_folder moody_client ''user'' ''21-11-2025'' Map.empty
            (world moody_pending)) = None
   \<and> upload_one raising_fromtimestamp moody_client ''user'' shot1
        ([], Map.empty, world moody_pending)
      = ([], Map.empty,
         (world moody_pending)
           \<lparr>remote := Suc 0,
            logs := logs (world moody_pending)
                    @ [EnsuringFolderExists (''user'' @ ''/'' @ ''21-11-2025''),
                       NoNodeIdReturned (''user'' @ ''/'' @ ''21-11-2025''),
                       SkippingUpload shot1]\<rparr>)
   \<and> fst (upload_batch_to_mega raising_fromtimestamp (Some moody_client) ''user''
            (mega_day_cache moody_pending) (pending_screenshots moody_pending)
            (world moody_pending)) = [shot5]
   \<and> pending_screenshots (upload_trigger raising_fromtimestamp small_limit ''user'' None
        moody_pending) = [shot1]
   \<and> shot1 \<in> set (pending_screenshots
        (upload_trigger raising_fromtimestamp small_limit ''user'' None moody_pending))
   \<and> stat (disk (world (upload_trigger raising_fromtimestamp small_limit ''user'' None
        moody_pending))) shot1 = Inr png
   \<and> mega_day_cache (upload_trigger raising_fromtimestamp small_limit ''user'' None moody_pending)
        ''21-11-2025'' = Some ''#21''"
proof -
  note T = folder_failure_keeps_pending [where c = moody_client and u = "''user''"
      and k = "''21-11-2025''" and cache = Map.empty and w = "world moody_pending"
      and d = Map.empty and r' = "Suc 0" and st = moody_pending and p = shot1
      and fromtimestamp = raising_fromtimestamp and cfg = small_limit and login_result = None
      and i = 0 and up = "[]" and ?up1.0 = "[]" and ?cache1.0 = Map.empty
      and ?w1.0 = "world moody_pending"]
  have w: "world moody_pending = \<lparr>disk = [(shot1, png), (shot5, png)], remote = 0, logs = []\<rparr>"
    by (simp add: moody_pending_def)
  have cf: "create_folder moody_client (''user'' @ ''/'' @ ''21-11-2025'')
              (remote (world moody_pending)) = (Inr Map.empty, Suc 0)"
    by (simp add: moody_client_def w)
  have x: "exists (disk (world moody_pending)) shot1"
    by (simp add: w exists_def)
  have k: "get_day_folder_name_for_path raising_fromtimestamp (disk (world moody_pending)) shot1
           = Inr ''21-11-2025''"
    by (rule shot_days)
  have c: "mega_client moody_pending = Some moody_client"
    and i: "0 < length (pending_screenshots moody_pending)"
      "pending_screenshots moody_pending ! 0 = shot1"
    and once: "shot1 \<notin> set (take 0 (pending_screenshots moody_pending))"
      "shot1 \<notin> set (drop (Suc 0) (pending_screenshots moody_pending))"
    and s: "loop_state raising_fromtimestamp moody_client ''user'' (mega_day_cache moody_pending)
              (pending_screenshots moody_pending) (world moody_pending) 0
            = ([], Map.empty, world moody_pending)"
    by (simp_all add: moody_pending_def loop_state_def shot_neq)
  have 2: "fst (ensure_mega_day_folder moody_client ''user'' ''21-11-2025'' Map.empty
                  (world moody_pending)) = None"
    using T [THEN conjunct1] cf by simp
  have 3: "upload_one raising_fromtimestamp moody_client ''user'' shot1
        ([], Map.empty, world moody_pending)
      = ([], Map.empty,
         (world moody_pending)
           \<lparr>remote := Suc 0,
            logs := logs (world moody_pending)
                    @ [EnsuringFolderExists (''user'' @ ''/'' @ ''21-11-2025''),
                       NoNodeIdReturned (''user'' @ ''/'' @ ''21-11-2025''),
                       SkippingUpload shot1]\<rparr>)"
    using T [THEN conjunct2, THEN conjunct1] x k cf by simp
  have 4: "fst (upload_batch_to_mega raising_fromtimestamp (Some moody_client) ''user''
            (mega_day_cache moody_pending) (pending_screenshots moody_pending)
            (world moody_pending)) = [shot5]"
    unfolding w by (simp add: moody_pending_def moody_batch)
  have 5: "pending_screenshots (upload_trigger raising_fromtimestamp small_limit ''user'' None
             moody_pending) = [shot1]"
    unfolding moody_trigger by simp
  have h: "mega_client moody_pending = Some moody_client
        \<and> 0 < length (pending_screenshots moody_pending)
        \<and> pending_screenshots moody_pending ! 0 = shot1
        \<and> shot1 \<notin> set (take 0 (pending_screenshots moody_pending))
        \<and> shot1 \<notin> set (drop (Suc 0) (pending_screenshots moody_pending))
        \<and> loop_state raising_fromtimestamp moody_client ''user'' (mega_day_cache moody_pending)
              (pending_screenshots moody_pending) (world moody_pending) 0
            = ([], Map.empty, world moody_pending)
        \<and> exists (disk (world moody_pending)) shot1
        \<and> get_day_folder_name_for_path raising_fromtimestamp (disk (world moody_pending)) shot1
            = Inr ''21-11-2025''
        \<and> Map.empty ''21-11-2025'' = None
        \<and> create_folder moody_client (''user'' @ ''/'' @ ''21-11-2025'')
              (remote (world moody_pending)) = (Inr Map.empty, Suc 0)
        \<and> (Map.empty ''21-11-2025'' = None \<or> Map.empty ''21-11-2025'' = Some [])"
    by (intro conjI c i once s x k cf) simp_all
  from T [THEN conjunct2, THEN conjunct2, rule_format, OF h]
  have 6: "shot1 \<in> set (pending_screenshots
        (upload_trigger raising_fromtimestamp small_limit ''user'' None moody_pending))"
    and same: "stat (disk (world (upload_trigger raising_fromtimestamp small_limit ''user'' None
        moody_pending))) shot1 = stat (disk (world moody_pending)) shot1"
    by blast+
  have 7: "stat (disk (world (upload_trigger raising_fromtimestamp small_limit ''user'' None
        moody_pending))) shot1 = Inr png"
    unfolding same by (simp add: w stat_def)
  have 8: "mega_day_cache (upload_trigger raising_fromtimestamp small_limit ''user'' None
             moody_pending) ''21-11-2025'' = Some ''#21''"
    unfolding moody_trigger by simp
  show ?thesis
    by (intro conjI cf 2 3 4 5 6 7 8)
qed
section \<open>Orchestrator: claims\<close>

text \<open>
  Claim C1.  A rotation leaves every protected path as it found it, for every protect-set,
  limit and file system: \<^verbatim>\<open>stat\<close> gives the same result before and after, so a protected file
  that exists still exists.  In a loop iteration the pending list, with the new screenshot
  appended, is the protect-set: after capture and rotation every pending path is as the
  capture left it, and a pending file that was on disk before the iteration is still there.
  A file that is on disk after the rotation and gone at the end of the iteration was removed
  by the upload batcher: it is a pending path, the batcher ran with a client, and at the
  position of the pending list where the path was processed \<^verbatim>\<open>mega_client.upload\<close> returned
  for it without raising (and the log has the line that follows the call); the same holds for
  the last pass on interrupt.  This holds from every state.
\<close>

theorem pending_never_rotated:
  fixes w :: "'r world" and st :: "'r state"
  shows "(\<forall>p\<in>protected_paths protected.
            stat (disk (rotate_screenshots folder max_size_mb protected w)) p = stat (disk w) p)
    \<and> (\<forall>p\<in>set (pending_screenshots (capture_and_rotate cfg inp st)).
          stat (disk (world (capture_and_rotate cfg inp st))) p
          = stat (disk (take_screenshot (screenshot_path cfg (now inp)) (shot inp) (world st))) p)
    \<and> (\<forall>p\<in>set (pending_screenshots st). exists (disk (world st)) p
          \<longrightarrow> exists (disk (world (capture_and_rotate cfg inp st))) p)
    \<and> (\<forall>p. exists (disk (world (capture_and_rotate cfg inp st))) p
          \<and> \<not> exists (disk (world (loop_iteration fromtimestamp cfg u inp st))) p
          \<longrightarrow> p \<in> set (pending_screenshots (capture_and_rotate cfg inp st))
            \<and> (\<exists>c. (case mega_client (capture_and_rotate cfg inp st) of
                       None \<Rightarrow> login inp | Some c' \<Rightarrow> Some c') = Some c
                  \<and> upload_succeeded fromtimestamp c u
                      (mega_day_cache (capture_and_rotate cfg inp st))
                      (pending_screenshots (capture_and_rotate cfg inp st))
                      (world (capture_and_rotate cfg inp st)) p)
            \<and> upload_confirmed p
                (new_logs (world (capture_and_rotate cfg inp st))
                   (world (loop_iteration fromtimestamp cfg u inp st))))
    \<and> (\<forall>p. exists (disk (world st)) p
          \<and> \<not> exists (disk (world (final_upload fromtimestamp cfg u st))) p
          \<longrightarrow> p \<in> set (pending_screenshots st)
            \<and> (\<exists>c. mega_client st = Some c
                  \<and> upload_succeeded fromtimestamp c u (mega_day_cache st)
                      (pending_screenshots st) (world st) p)
            \<and> upload_confirmed p
                (new_logs (world st) (world (final_upload fromtimestamp cfg u st))))"
proof (intro conjI ballI allI impI)
  fix p assume "p \<in> protected_paths protected"
  then show "stat (disk (rotate_screenshots folder max_size_mb protected w)) p = stat (disk w) p"
    by (simp add: stat_def rotate_keeps_protected)
next
  fix p assume p: "p \<in> set (pending_screenshots (capture_and_rotate cfg inp st))"
  let ?w1 = "take_screenshot (screenshot_path cfg (now inp)) (shot inp) (world st)"
  let ?prot = "Some (set (pending_screenshots st @ [screenshot_path cfg (now inp)]))"
  have w: "world (capture_and_rotate cfg inp st)
           = rotate_screenshots (screenshot_folder cfg) (max_folder_size_mb cfg) ?prot ?w1"
    and pend: "pending_screenshots (capture_and_rotate cfg inp st)
               = pending_screenshots st @ [screenshot_path cfg (now inp)]"
    by (simp_all add: capture_and_rotate_def Let_def)
  from p have "p \<in> protected_paths ?prot"
    unfolding pend by (simp add: protected_paths_def)
  then show "stat (disk (world (capture_and_rotate cfg inp st))) p = stat (disk ?w1) p"
    unfolding w by (simp add: stat_def rotate_keeps_protected)
next
  fix p assume p: "p \<in> set (pending_screenshots st)" and x: "exists (disk (world st)) p"
  let ?w1 = "take_screenshot (screenshot_path cfg (now inp)) (shot inp) (world st)"
  let ?prot = "Some (set (pending_screenshots st @ [screenshot_path cfg (now inp)]))"
  have w: "world (capture_and_rotate cfg inp st)
           = rotate_screenshots (screenshot_folder cfg) (max_folder_size_mb cfg) ?prot ?w1"
    by (simp add: capture_and_rotate_def Let_def)
  from p have "p \<in> protected_paths ?prot"
    by (simp add: protected_paths_def)
  from rotate_keeps_protected [OF this, of "screenshot_folder cfg" "max_folder_size_mb cfg" ?w1]
  have "exists (disk (world (capture_and_rotate cfg inp st))) p = exists (disk ?w1) p"
    unfolding w exists_def by simp
  with take_screenshot_keeps [OF x, of "screenshot_path cfg (now inp)" "shot inp"]
  show "exists (disk (world (capture_and_rotate cfg inp st))) p"
    by simp
next
  fix p
  assume a: "exists (disk (world (capture_and_rotate cfg inp st))) p
          \<and> \<not> exists (disk (world (loop_iteration fromtimestamp cfg u inp st))) p"
  then have g: "\<not> exists (disk (world (upload_trigger fromtimestamp cfg u (login inp)
                                           (capture_and_rotate cfg inp st)))) p"
    unfolding loop_iteration_def by simp
  from upload_trigger_deletes_uploaded [OF a [THEN conjunct1] g]
  show "p \<in> set (pending_screenshots (capture_and_rotate cfg inp st))"
    and "\<exists>c. (case mega_client (capture_and_rotate cfg inp st) of
                None \<Rightarrow> login inp | Some c' \<Rightarrow> Some c') = Some c
           \<and> upload_succeeded fromtimestamp c u
               (mega_day_cache (capture_and_rotate cfg inp st))
               (pending_screenshots (capture_and_rotate cfg inp st))
               (world (capture_and_rotate cfg inp st)) p"
    by blast+
  from a show "upload_confirmed p
                (new_logs (world (capture_and_rotate cfg inp st))
                   (world (loop_iteration fromtimestamp cfg u inp st)))"
    unfolding loop_iteration_def by (intro upload_trigger_deletes_confirmed) simp_all
next
  fix p
  assume a: "exists (disk (world st)) p
             \<and> \<not> exists (disk (world (final_upload fromtimestamp cfg u st))) p"
  from final_upload_deletes_uploaded [OF a [THEN conjunct1] a [THEN conjunct2]]
  show "p \<in> set (pending_screenshots st)"
    and "\<exists>c. mega_client st = Some c
           \<and> upload_succeeded fromtimestamp c u (mega_day_cache st)
               (pending_screenshots st) (world st) p"
    by blast+
  from a show "upload_confirmed p
                 (new_logs (world st) (world (final_upload fromtimestamp cfg u st)))"
    by (intro final_upload_deletes_confirmed) simp_all
qed

text \<open>
  In the iteration of the scenario the rotation removes the screenshot of the previous day and
  keeps the two pending ones; they are gone at the end of the iteration, each after
  \<^verbatim>\<open>mega_client.upload\<close> has returned for it.
\<close>

theorem pending_never_rotated_witness:
  "exists (disk (world one_pending)) old_shot
   \<and> pending_screenshots (capture_and_rotate small_limit second_tick one_pending)
      = [shot1, shot2]
   \<and> disk (world (capture_and_rotate small_limit second_tick one_pending))
      = [(shot1, png), (shot2, png)]
   \<and> exists (disk (world (capture_and_rotate small_limit second_tick one_pending))) shot1
   \<and> \<not> exists (disk (world (loop_iteration raising_fromtimestamp small_limit ''user'' second_tick
                                one_pending))) shot1
   \<and> upload picky_client shot1 ''#21'' [] = (Inr (), [shot1])
   \<and> upload_succeeded raising_fromtimestamp picky_client ''user''
        (mega_day_cache (capture_and_rotate small_limit second_tick one_pending))
        (pending_screenshots (capture_and_rotate small_limit second_tick one_pending))
        (world (capture_and_rotate small_limit second_tick one_pending)) shot1
   \<and> upload_confirmed shot1
        (new_logs (world (capture_and_rotate small_limit second_tick one_pending))
           (world (loop_iteration raising_fromtimestamp small_limit ''user'' second_tick one_pending)))"
proof -
  note T = pending_never_rotated [where st = one_pending and cfg = small_limit
      and inp = second_tick and fromtimestamp = raising_fromtimestamp and u = "''user''",
      THEN conjunct2, THEN conjunct2, THEN conjunct2, THEN conjunct1, rule_format]
  have 1: "exists (disk (world one_pending)) old_shot"
    by (simp add: one_pending_def exists_def)
  have 2: "pending_screenshots (capture_and_rotate small_limit second_tick one_pending)
           = [shot1, shot2]"
    and 3: "disk (world (capture_and_rotate small_limit second_tick one_pending))
            = [(shot1, png), (shot2, png)]"
    and c: "mega_client (capture_and_rotate small_limit second_tick one_pending)
            = Some picky_client"
    unfolding second_tick_capture_and_rotate by simp_all
  have 4: "exists (disk (world (capture_and_rotate small_limit second_tick one_pending))) shot1"
    unfolding 3 by (simp add: exists_def)
  have 5: "\<not> exists (disk (world (loop_iteration raising_fromtimestamp small_limit ''user'' second_tick
                                one_pending))) shot1"
    unfolding second_tick_iteration by (simp add: exists_def)
  have 6: "upload picky_client shot1 ''#21'' [] = (Inr (), [shot1])"
    by (simp add: picky_client_def shot_neq)
  note r = T [OF conjI [OF 4 5]]
  from r [THEN conjunct2, THEN conjunct1] obtain c' where
    c': "(case mega_client (capture_and_rotate small_limit second_tick one_pending) of
            None \<Rightarrow> login second_tick | Some c' \<Rightarrow> Some c') = Some c'"
    and s: "upload_succeeded raising_fromtimestamp c' ''user''
        (mega_day_cache (capture_and_rotate small_limit second_tick one_pending))
        (pending_screenshots (capture_and_rotate small_limit second_tick one_pending))
        (world (capture_and_rotate small_limit second_tick one_pending)) shot1"
    by (elim exE conjE) (rule that; assumption)
  from c' have "c' = picky_client" unfolding c by simp
  with s have 7: "upload_succeeded raising_fromtimestamp picky_client ''user''
        (mega_day_cache (capture_and_rotate small_limit second_tick one_pending))
        (pending_screenshots (capture_and_rotate small_limit second_tick one_pending))
        (world (capture_and_rotate small_limit second_tick one_pending)) shot1"
    by simp
  note 8 = r [THEN conjunct2, THEN conjunct2]
  show ?thesis
    by (intro conjI 1 2 3 4 5 6 7 8)
qed

text \<open>
  Claim C6 says that the orchestrator attempts an upload pass only when uploads are enabled
  and the pending list has at least \<^verbatim>\<open>upload_batch_size\<close> entries.  The handler of
  \<^verbatim>\<open>KeyboardInterrupt\<close> in \<^verbatim>\<open>main\<close> makes one more pass over whatever is pending, without looking
  at the batch size: with five pending artifacts and a batch size of ten the upload trigger of
  the loop does nothing, and the last pass uploads and deletes two of them and drops three
  from the pending list.
\<close>

theorem final_pass_counterexample:
  "enable_mega batch_of_ten
   \<and> upload_batch_size batch_of_ten = 10
   \<and> length (pending_screenshots five_pending) = 5
   \<and> upload_trigger raising_fromtimestamp batch_of_ten ''user'' None five_pending = five_pending
   \<and> pending_screenshots (final_upload raising_fromtimestamp batch_of_ten ''user'' five_pending)
      = [shot3, shot4]
   \<and> disk (world (final_upload raising_fromtimestamp batch_of_ten ''user'' five_pending))
      = [(shot3, png), (shot4, png)]
   \<and> remote (world (final_upload raising_fromtimestamp batch_of_ten ''user'' five_pending))
      = [shot1, shot5]"
proof -
  have 1: "enable_mega batch_of_ten" and 2: "upload_batch_size batch_of_ten = 10"
    by (simp_all add: batch_of_ten_def)
  have 3: "length (pending_screenshots five_pending) = 5"
    by (simp add: five_pending_def)
  have 4: "upload_trigger raising_fromtimestamp batch_of_ten ''user'' None five_pending
           = five_pending"
    by (simp add: upload_trigger_def batch_of_ten_def five_pending_def)
  note f = five_pending_final [of raising_fromtimestamp]
  have 5: "pending_screenshots (final_upload raising_fromtimestamp batch_of_ten ''user''
             five_pending) = [shot3, shot4]"
    and 6: "disk (world (final_upload raising_fromtimestamp batch_of_ten ''user'' five_pending))
            = [(shot3, png), (shot4, png)]"
    and 7: "remote (world (final_upload raising_fromtimestamp batch_of_ten ''user''
              five_pending)) = [shot1, shot5]"
    unfolding f by (simp_all add: mixed_batch)
  show ?thesis
    by (intro conjI 1 2 3 4 5 6 7)
qed

text \<open>
  Claim C6, amended.  The upload trigger of a loop iteration (lines 390 to 403 of \<^verbatim>\<open>main\<close>)
  does nothing unless uploads are enabled and the pending list has at least
  \<^verbatim>\<open>upload_batch_size\<close> entries.  When these hold and a client is at hand (the one kept, or a
  fresh login), the pending list afterwards is the old one without the paths the batcher
  returned, in the old order, and the world is the one the batcher left.  When moreover
  nothing fails (every folder is created, every upload accepted, every pending file that is on
  disk can be deleted and has a day key), the batcher returns all pending paths, the pending
  list becomes empty and none of the files is left.  The last pass on interrupt (lines 407 to
  417) does nothing unless uploads are enabled, a client exists and the pending list is not
  empty; when these hold it runs the batcher whatever the batch size, and removes the returned
  paths from the pending list in the same way.
\<close>

theorem upload_trigger_pass:
  fixes st :: "'r state"
  shows "(\<not> (enable_mega cfg \<and> upload_batch_size cfg \<le> int (length (pending_screenshots st)))
        \<longrightarrow> upload_trigger fromtimestamp cfg u login_result st = st)
    \<and> (enable_mega cfg \<and> upload_batch_size cfg \<le> int (length (pending_screenshots st))
        \<and> (case mega_client st of None \<Rightarrow> login_result | Some c' \<Rightarrow> Some c') = Some c
        \<longrightarrow> pending_screenshots (upload_trigger fromtimestamp cfg u login_result st)
              = filter (\<lambda>p. p \<notin> set (fst (upload_batch_to_mega fromtimestamp (Some c) u (mega_day_cache st)
                                               (pending_screenshots st) (world st))))
                  (pending_screenshots st)
            \<and> world (upload_trigger fromtimestamp cfg u login_result st)
              = snd (snd (upload_batch_to_mega fromtimestamp (Some c) u (mega_day_cache st)
                            (pending_screenshots st) (world st))))
    \<and> (enable_mega cfg \<and> upload_batch_size cfg \<le> int (length (pending_screenshots st))
        \<and> mega_client st = Some c
        \<and> (\<forall>p h r. \<exists>x r'. upload c p h r = (Inr x, r'))
        \<and> (\<forall>j. mega_day_cache st j \<noteq> Some [])
        \<and> (\<forall>p\<in>set (pending_screenshots st). exists (disk (world st)) p
              \<longrightarrow> \<not> is_read_only (disk (world st)) p
                \<and> (\<exists>k. get_day_folder_name_for_path fromtimestamp (disk (world st)) p = Inr k
                     \<and> (\<forall>r. \<exists>d r' h. create_folder c (u @ ''/'' @ k) r = (Inr d, r')
                            \<and> d k = Some h \<and> h \<noteq> [])))
        \<longrightarrow> fst (upload_batch_to_mega fromtimestamp (Some c) u (mega_day_cache st)
                   (pending_screenshots st) (world st)) = pending_screenshots st
            \<and> pending_screenshots (upload_trigger fromtimestamp cfg u login_result st) = []
            \<and> (\<forall>p\<in>set (pending_screenshots st).
                  \<not> exists (disk (world (upload_trigger fromtimestamp cfg u login_result st))) p))
    \<and> (\<not> (enable_mega cfg \<and> mega_client st \<noteq> None \<and> pending_screenshots st \<noteq> [])
        \<longrightarrow> final_upload fromtimestamp cfg u st = st)
    \<and> (enable_mega cfg \<and> mega_client st = Some c \<and> pending_screenshots st \<noteq> []
        \<longrightarrow> pending_screenshots (final_upload fromtimestamp cfg u st)
              = filter (\<lambda>p. p \<notin> set (fst (upload_batch_to_mega fromtimestamp (Some c) u (mega_day_cache st)
                                               (pending_screenshots st) (world st))))
                  (pending_screenshots st)
            \<and> world (final_upload fromtimestamp cfg u st)
              = snd (snd (upload_batch_to_mega fromtimestamp (Some c) u (mega_day_cache st)
                            (pending_screenshots st) (world st))))"
proof (intro conjI impI)
  assume "\<not> (enable_mega cfg \<and> upload_batch_size cfg \<le> int (length (pending_screenshots st)))"
  then show "upload_trigger fromtimestamp cfg u login_result st = st"
    unfolding upload_trigger_def by (rule if_not_P)
next
  assume a: "enable_mega cfg \<and> upload_batch_size cfg \<le> int (length (pending_screenshots st))
        \<and> (case mega_client st of None \<Rightarrow> login_result | Some c' \<Rightarrow> Some c') = Some c"
  then show "pending_screenshots (upload_trigger fromtimestamp cfg u login_result st)
              = filter (\<lambda>p. p \<notin> set (fst (upload_batch_to_mega fromtimestamp (Some c) u (mega_day_cache st)
                                               (pending_screenshots st) (world st))))
                  (pending_screenshots st)"
    by (simp add: upload_trigger_def split: prod.splits)
  from a show "world (upload_trigger fromtimestamp cfg u login_result st)
              = snd (snd (upload_batch_to_mega fromtimestamp (Some c) u (mega_day_cache st)
                            (pending_screenshots st) (world st)))"
    by (simp add: upload_trigger_def split: prod.splits)
next
  assume a: "enable_mega cfg \<and> upload_batch_size cfg \<le> int (length (pending_screenshots st))
        \<and> mega_client st = Some c
        \<and> (\<forall>p h r. \<exists>x r'. upload c p h r = (Inr x, r'))
        \<and> (\<forall>j. mega_day_cache st j \<noteq> Some [])
        \<and> (\<forall>p\<in>set (pending_screenshots st). exists (disk (world st)) p
              \<longrightarrow> \<not> is_read_only (disk (world st)) p
                \<and> (\<exists>k. get_day_folder_name_for_path fromtimestamp (disk (world st)) p = Inr k
                     \<and> (\<forall>r. \<exists>d r' h. create_folder c (u @ ''/'' @ k) r = (Inr d, r')
                            \<and> d k = Some h \<and> h \<noteq> [])))"
  then have on: "enable_mega cfg \<and> upload_batch_size cfg \<le> int (length (pending_screenshots st))"
    and c: "mega_client st = Some c"
    and R2: "\<forall>p h r. \<exists>x r'. upload c p h r = (Inr x, r')"
    and inv: "\<forall>j. mega_day_cache st j \<noteq> Some []"
    and G: "\<forall>p\<in>set (pending_screenshots st). exists (disk (world st)) p
              \<longrightarrow> \<not> is_read_only (disk (world st)) p
                \<and> (\<exists>k. get_day_folder_name_for_path fromtimestamp (disk (world st)) p = Inr k
                     \<and> (\<forall>r. \<exists>d r' h. create_folder c (u @ ''/'' @ k) r = (Inr d, r')
                            \<and> d k = Some h \<and> h \<noteq> []))"
    by blast+
  obtain uploaded cache' w' where
    b: "upload_batch_to_mega fromtimestamp (Some c) u (mega_day_cache st) (pending_screenshots st) (world st)
        = (uploaded, cache', w')"
    by (cases "upload_batch_to_mega fromtimestamp (Some c) u (mega_day_cache st) (pending_screenshots st)
                 (world st)")
  have loop: "upload_loop fromtimestamp c u (pending_screenshots st) ([], mega_day_cache st, world st)
              = (uploaded, cache', w')"
    using b by (cases "pending_screenshots st") (simp_all add: upload_batch_to_mega_def)
  from upload_loop_all_ok [OF R2 inv G loop]
  have all: "uploaded = pending_screenshots st"
    and gone: "\<forall>p\<in>set (pending_screenshots st). \<not> exists (disk w') p"
    by simp_all
  have t: "upload_trigger fromtimestamp cfg u login_result st
    = st\<lparr>pending_screenshots := filter (\<lambda>p. p \<notin> set uploaded) (pending_screenshots st),
         mega_client := Some c, mega_day_cache := cache', world := w'\<rparr>"
    unfolding upload_trigger_with_client [OF c b] using on by simp
  show "fst (upload_batch_to_mega fromtimestamp (Some c) u (mega_day_cache st)
                   (pending_screenshots st) (world st)) = pending_screenshots st"
    unfolding b using all by simp
  show "pending_screenshots (upload_trigger fromtimestamp cfg u login_result st) = []"
    unfolding t all by simp
  show "\<forall>p\<in>set (pending_screenshots st).
          \<not> exists (disk (world (upload_trigger fromtimestamp cfg u login_result st))) p"
    unfolding t using gone by simp
next
  assume "\<not> (enable_mega cfg \<and> mega_client st \<noteq> None \<and> pending_screenshots st \<noteq> [])"
  then show "final_upload fromtimestamp cfg u st = st"
    unfolding final_upload_def by (rule if_not_P)
next
  assume a: "enable_mega cfg \<and> mega_client st = Some c \<and> pending_screenshots st \<noteq> []"
  then show "pending_screenshots (final_upload fromtimestamp cfg u st)
              = filter (\<lambda>p. p \<notin> set (fst (upload_batch_to_mega fromtimestamp (Some c) u (mega_day_cache st)
                                               (pending_screenshots st) (world st))))
                  (pending_screenshots st)"
    by (simp add: final_upload_def split: prod.splits)
  from a show "world (final_upload fromtimestamp cfg u st)
              = snd (snd (upload_batch_to_mega fromtimestamp (Some c) u (mega_day_cache st)
                            (pending_screenshots st) (world st)))"
    by (simp add: final_upload_def split: prod.splits)
qed

text \<open>
  The scenario of the specification: ten pending artifacts, a batch size of ten, a valid
  session and no failure.  The pending list becomes empty and the ten files are gone.  With
  five pending artifacts and a batch size of ten the trigger of the loop makes no pass, and
  the last pass on interrupt keeps the two artifacts that the batcher does not return.
\<close>

theorem upload_trigger_pass_witness:
  "length (pending_screenshots ten_pending) = 10
   \<and> upload_batch_size batch_of_ten = 10
   \<and> list_all (exists (disk (world ten_pending))) ten_shots
   \<and> pending_screenshots (upload_trigger raising_fromtimestamp batch_of_ten ''user'' None ten_pending) = []
   \<and> list_all
        (\<lambda>p. \<not> exists (disk (world (upload_trigger raising_fromtimestamp batch_of_ten ''user'' None ten_pending))) p)
        ten_shots
   \<and> upload_trigger raising_fromtimestamp batch_of_ten ''user'' None five_pending = five_pending
   \<and> pending_screenshots (final_upload raising_fromtimestamp batch_of_ten ''user'' five_pending)
      = filter (\<lambda>p. p \<notin> set [shot1, shot2, shot5]) [shot1, shot2, shot3, shot4, shot5]"
proof -
  note T = upload_trigger_pass [where cfg = batch_of_ten and fromtimestamp = raising_fromtimestamp and u = "''user''"
      and login_result = None]
  have 1: "length (pending_screenshots ten_pending) = 10"
    by (simp add: ten_pending_def ten_shots_def)
  have 2: "upload_batch_size batch_of_ten = 10"
    by (simp add: batch_of_ten_def)
  have 3: "list_all (exists (disk (world ten_pending))) ten_shots"
    by (simp add: list_all_iff exists_def ten_pending_files)
  have on: "enable_mega batch_of_ten
            \<and> upload_batch_size batch_of_ten \<le> int (length (pending_screenshots ten_pending))"
    unfolding 1 2 by (simp add: batch_of_ten_def)
  have c: "mega_client ten_pending = Some obliging_client"
    and inv: "\<forall>j. mega_day_cache ten_pending j \<noteq> Some []"
    and pend: "pending_screenshots ten_pending = ten_shots"
    by (simp_all add: ten_pending_def)
  have G: "\<forall>p\<in>set (pending_screenshots ten_pending). exists (disk (world ten_pending)) p
              \<longrightarrow> \<not> is_read_only (disk (world ten_pending)) p
                \<and> (\<exists>k. get_day_folder_name_for_path raising_fromtimestamp (disk (world ten_pending)) p = Inr k
                     \<and> (\<forall>r. \<exists>d r' h. create_folder obliging_client (''user'' @ ''/'' @ k) r
                                        = (Inr d, r')
                            \<and> d k = Some h \<and> h \<noteq> []))"
  proof (intro ballI impI conjI)
    fix p assume p: "p \<in> set (pending_screenshots ten_pending)"
    then show "\<not> is_read_only (disk (world ten_pending)) p"
      unfolding pend by (simp add: is_read_only_def ten_pending_files png_def)
    from p ten_shots_days
    have "get_day_folder_name_for_path raising_fromtimestamp (disk (world ten_pending)) p = Inr ''21-11-2025''"
      unfolding pend by blast
    with obliging_client_ok(2)
    show "\<exists>k. get_day_folder_name_for_path raising_fromtimestamp (disk (world ten_pending)) p = Inr k
            \<and> (\<forall>r. \<exists>d r' h. create_folder obliging_client (''user'' @ ''/'' @ k) r = (Inr d, r')
                   \<and> d k = Some h \<and> h \<noteq> [])"
      by blast
  qed
  from T [where st = ten_pending and c = obliging_client, THEN conjunct2, THEN conjunct2,
          THEN conjunct1, rule_format,
          OF conjI [OF on [THEN conjunct1] conjI [OF on [THEN conjunct2]
                conjI [OF c conjI [OF obliging_client_ok(1) conjI [OF inv G]]]]]]
  have 4: "pending_screenshots (upload_trigger raising_fromtimestamp batch_of_ten ''user'' None ten_pending) = []"
    and gone: "\<forall>p\<in>set (pending_screenshots ten_pending).
       \<not> exists (disk (world (upload_trigger raising_fromtimestamp batch_of_ten ''user'' None ten_pending))) p"
    by blast+
  from gone have 5: "list_all
        (\<lambda>p. \<not> exists (disk (world (upload_trigger raising_fromtimestamp batch_of_ten ''user'' None ten_pending))) p)
        ten_shots"
    unfolding pend by (simp add: list_all_iff)
  have off: "\<not> (enable_mega batch_of_ten
            \<and> upload_batch_size batch_of_ten \<le> int (length (pending_screenshots five_pending)))"
    by (simp add: batch_of_ten_def five_pending_def)
  note 6 = T [where st = five_pending, THEN conjunct1, rule_format, OF off]
  have last: "enable_mega batch_of_ten \<and> mega_client five_pending = Some picky_client
              \<and> pending_screenshots five_pending \<noteq> []"
    by (simp add: batch_of_ten_def five_pending_def)
  have 7: "pending_screenshots (final_upload raising_fromtimestamp batch_of_ten ''user''
             five_pending)
           = filter (\<lambda>p. p \<notin> set [shot1, shot2, shot5]) [shot1, shot2, shot3, shot4, shot5]"
    using T [where st = five_pending and c = picky_client, THEN conjunct2, THEN conjunct2,
             THEN conjunct2, THEN conjunct2, rule_format, OF last, THEN conjunct1]
    by (simp add: five_pending_def mixed_batch)
  show ?thesis
    by (intro conjI 1 2 3 4 5 6 7)
qed

end
